theory Spec2Isabelle
  imports Main "HOL-Library.Sublist"
begin

section \<open>Go strings and the library functions the package calls\<close>

text \<open>
  A Go \<open>string\<close> is a sequence of bytes; it is modelled as a \<open>string\<close> (a list of
  8-bit characters). The functions of this section belong to the Go standard library,
  not to the package; they are modelled after their documented behaviour.
\<close>

definition byte :: "char \<Rightarrow> nat" where
  "byte c = of_char c"

text \<open>
  \<open>strings.ToUpper\<close>. A string whose bytes are all below \<open>utf8.RuneSelf\<close> (0x80)
  takes the ASCII path: each byte in \<open>'a'..'z'\<close> is lowered by \<open>'a' - 'A'\<close>, every
  other byte is kept. Any other string goes through \<open>strings.Map(unicode.ToUpper, s)\<close>,
  which depends on the Unicode case tables of the Go release; that path is the parameter
  \<open>mapUpper\<close>.
\<close>

definition isASCII :: "string \<Rightarrow> bool" where
  "isASCII s = list_all (\<lambda>c. byte c < 128) s"

definition upperByte :: "char \<Rightarrow> char" where
  "upperByte c = (if 97 \<le> byte c \<and> byte c \<le> 122 then char_of (byte c - 32) else c)"

definition ToUpper :: "(string \<Rightarrow> string) \<Rightarrow> string \<Rightarrow> string" where
  "ToUpper mapUpper s = (if isASCII s then map upperByte s else mapUpper s)"

text \<open>
  \<open>utf8.DecodeRuneInString\<close>, as far as its callers here need it: \<open>runeLen s\<close> is the
  number of bytes of the well-formed UTF-8 sequence at the head of \<open>s\<close>, and \<open>0\<close> where
  the decoder answers \<open>(RuneError, 1)\<close> (or \<open>(RuneError, 0)\<close> on the empty string).
\<close>

definition inRange :: "nat \<Rightarrow> nat \<Rightarrow> char \<Rightarrow> bool" where
  "inRange lo hi c = (lo \<le> byte c \<and> byte c \<le> hi)"

definition size3 :: "nat \<Rightarrow> nat \<Rightarrow> string \<Rightarrow> nat" where
  "size3 lo hi s =
     (case s of c1 # c2 # _ \<Rightarrow> if inRange lo hi c1 \<and> inRange 0x80 0xBF c2 then 3 else 0
      | _ \<Rightarrow> 0)"

definition size4 :: "nat \<Rightarrow> nat \<Rightarrow> string \<Rightarrow> nat" where
  "size4 lo hi s =
     (case s of c1 # c2 # c3 # _ \<Rightarrow>
        if inRange lo hi c1 \<and> inRange 0x80 0xBF c2 \<and> inRange 0x80 0xBF c3 then 4 else 0
      | _ \<Rightarrow> 0)"

fun runeLen :: "string \<Rightarrow> nat" where
  "runeLen [] = 0"
| "runeLen (c # s) =
     (if byte c < 0x80 then 1
      else if inRange 0xC2 0xDF c then
        (case s of c1 # _ \<Rightarrow> if inRange 0x80 0xBF c1 then 2 else 0 | _ \<Rightarrow> 0)
      else if byte c = 0xE0 then size3 0xA0 0xBF s
      else if inRange 0xE1 0xEC c \<or> inRange 0xEE 0xEF c then size3 0x80 0xBF s
      else if byte c = 0xED then size3 0x80 0x9F s
      else if byte c = 0xF0 then size4 0x90 0xBF s
      else if inRange 0xF1 0xF3 c then size4 0x80 0xBF s
      else if byte c = 0xF4 then size4 0x80 0x8F s
      else 0)"

text \<open>
  \<open>encoding/json\<close>: how \<open>json.Marshal\<close> writes a string value (with HTML escaping, its
  default). A byte from 0x20 to 0x7F other than the double quote, the backslash, \<open><\<close>,
  \<open>>\<close> and \<open>&\<close> is copied; the double quote and the backslash get a backslash; newline,
  carriage return and tab get their short escapes (n, r, t); any other such byte is
  written as a backslash, u, 0, 0 and its two hexadecimal digits. U+2028 and U+2029 are
  written as their escapes, and every other well-formed UTF-8 sequence is copied.

  Two points differ between Go releases and are parameters of the model, the fields of
  \<open>jsonRelease\<close>: whether backspace and form feed get the short escapes b and f or the
  six-character form (\<open>shortEscapes\<close>), and whether a byte that starts no well-formed
  UTF-8 sequence is replaced by the three bytes of U+FFFD or by the six-character escape
  of U+FFFD (\<open>rawReplacement\<close>).
\<close>

definition hexDigit :: "nat \<Rightarrow> char" where
  "hexDigit n = (if n < 10 then char_of (48 + n) else char_of (87 + n))"

definition htmlSafe :: "char \<Rightarrow> bool" where
  "htmlSafe c = (0x20 \<le> byte c \<and> byte c < 0x80 \<and>
     c \<noteq> CHR 0x22 \<and> c \<noteq> CHR 0x5C \<and> c \<noteq> CHR ''<'' \<and> c \<noteq> CHR ''>'' \<and> c \<noteq> CHR ''&'')"

record jsonRelease =
  shortEscapes :: bool
  rawReplacement :: bool

definition escapeByte :: "jsonRelease \<Rightarrow> char \<Rightarrow> string" where
  "escapeByte rel c =
     (if c = CHR 0x5C \<or> c = CHR 0x22 then [CHR 0x5C, c]
      else if c = CHR 0x08 \<and> shortEscapes rel then [CHR 0x5C, CHR ''b'']
      else if c = CHR 0x0C \<and> shortEscapes rel then [CHR 0x5C, CHR ''f'']
      else if c = CHR 0x0A then [CHR 0x5C, CHR ''n'']
      else if c = CHR 0x0D then [CHR 0x5C, CHR ''r'']
      else if c = CHR 0x09 then [CHR 0x5C, CHR ''t'']
      else [CHR 0x5C, CHR ''u'', CHR ''0'', CHR ''0'',
            hexDigit (byte c div 16), hexDigit (byte c mod 16)])"

definition replacement :: "jsonRelease \<Rightarrow> string" where
  "replacement rel =
     (if rawReplacement rel then [CHR 0xEF, CHR 0xBF, CHR 0xBD]
      else [CHR 0x5C, CHR ''u'', CHR ''f'', CHR ''f'', CHR ''f'', CHR ''d''])"

function appendString :: "jsonRelease \<Rightarrow> string \<Rightarrow> string" where
  "appendString rel [] = []"
| "appendString rel (c # s) =
     (if byte c < 0x80 then
        (if htmlSafe c then [c] else escapeByte rel c) @ appendString rel s
      else if runeLen (c # s) = 0 then
        replacement rel @ appendString rel s
      else if take 3 (c # s) = [CHR 0xE2, CHR 0x80, CHR 0xA8] then
        [CHR 0x5C, CHR ''u'', CHR ''2'', CHR ''0'', CHR ''2'', CHR ''8'']
        @ appendString rel (drop 3 (c # s))
      else if take 3 (c # s) = [CHR 0xE2, CHR 0x80, CHR 0xA9] then
        [CHR 0x5C, CHR ''u'', CHR ''2'', CHR ''0'', CHR ''2'', CHR ''9'']
        @ appendString rel (drop 3 (c # s))
      else take (runeLen (c # s)) (c # s) @ appendString rel (drop (runeLen (c # s)) (c # s)))"
  by pat_completeness auto
termination
  by (relation "measure (\<lambda>(rel, s). length s)") auto

definition jsonString :: "jsonRelease \<Rightarrow> string \<Rightarrow> string" where
  "jsonString rel s = [CHR 0x22] @ appendString rel s @ [CHR 0x22]"

text \<open>
  \<open>strings.TrimSpace\<close> removes every leading and every trailing white-space code point,
  as \<open>unicode.IsSpace\<close> defines them: tab, line feed, vertical tab, form feed, carriage
  return, space, U+0085, U+00A0, U+1680, U+2000 to U+200A, U+2028, U+2029, U+202F,
  U+205F and U+3000. \<open>spaceRunes\<close> lists their UTF-8 encodings. \<open>dropRunes ps s\<close> strips
  leading occurrences of the byte sequences \<open>ps\<close> for as long as one of them is at the
  head of \<open>s\<close>; trimming on the right is the same on the reversed string.
\<close>

definition spaceRunes :: "string list" where
  "spaceRunes =
     [[CHR 0x09], [CHR 0x0A], [CHR 0x0B], [CHR 0x0C], [CHR 0x0D], [CHR 0x20],
      [CHR 0xC2, CHR 0x85], [CHR 0xC2, CHR 0xA0], [CHR 0xE1, CHR 0x9A, CHR 0x80],
      [CHR 0xE2, CHR 0x80, CHR 0x80], [CHR 0xE2, CHR 0x80, CHR 0x81],
      [CHR 0xE2, CHR 0x80, CHR 0x82], [CHR 0xE2, CHR 0x80, CHR 0x83],
      [CHR 0xE2, CHR 0x80, CHR 0x84], [CHR 0xE2, CHR 0x80, CHR 0x85],
      [CHR 0xE2, CHR 0x80, CHR 0x86], [CHR 0xE2, CHR 0x80, CHR 0x87],
      [CHR 0xE2, CHR 0x80, CHR 0x88], [CHR 0xE2, CHR 0x80, CHR 0x89],
      [CHR 0xE2, CHR 0x80, CHR 0x8A], [CHR 0xE2, CHR 0x80, CHR 0xA8],
      [CHR 0xE2, CHR 0x80, CHR 0xA9], [CHR 0xE2, CHR 0x80, CHR 0xAF],
      [CHR 0xE2, CHR 0x81, CHR 0x9F], [CHR 0xE3, CHR 0x80, CHR 0x80]]"

definition headRune :: "string list \<Rightarrow> string \<Rightarrow> string option" where
  "headRune ps s = find (\<lambda>p. p \<noteq> [] \<and> prefix p s) ps"

function dropRunes :: "string list \<Rightarrow> string \<Rightarrow> string" where
  "dropRunes ps s =
     (case headRune ps s of None \<Rightarrow> s | Some p \<Rightarrow> dropRunes ps (drop (length p) s))"
  by pat_completeness auto
termination
  by (relation "measure (\<lambda>(ps, s). length s)")
     (auto simp: headRune_def find_Some_iff prefix_def)

declare dropRunes.simps [simp del]

definition TrimLeftSpace :: "string \<Rightarrow> string" where
  "TrimLeftSpace s = dropRunes spaceRunes s"

definition TrimRightSpace :: "string \<Rightarrow> string" where
  "TrimRightSpace s = rev (dropRunes (map rev spaceRunes) (rev s))"

definition TrimSpace :: "string \<Rightarrow> string" where
  "TrimSpace s = TrimRightSpace (TrimLeftSpace s)"

text \<open>
  \<open>fmt\<close>: the operands a caller passes as \<open>...any\<close> are modelled for the two kinds the
  package's examples use, Go strings and Go ints. \<open>Sprint\<close> is \<open>doPrint\<close>: every operand
  is written with the verb \<open>%v\<close>, and a space is added between two operands when neither
  is a string.
\<close>

datatype any = StringV string | IntV int

function decimal :: "nat \<Rightarrow> string" where
  "decimal n = (if n < 10 then [char_of (48 + n)] else decimal (n div 10) @ [char_of (48 + n mod 10)])"
  by pat_completeness auto
termination
  by (relation "measure id") auto

declare decimal.simps [simp del]

definition formatInt :: "int \<Rightarrow> string" where
  "formatInt i = (if i < 0 then CHR ''-'' # decimal (nat (- i)) else decimal (nat i))"

fun isString :: "any \<Rightarrow> bool" where
  "isString (StringV s) = True"
| "isString (IntV i) = False"

fun typeName :: "any \<Rightarrow> string" where
  "typeName (StringV s) = ''string''"
| "typeName (IntV i) = ''int''"

fun printValue :: "any \<Rightarrow> string" where
  "printValue (StringV s) = s"
| "printValue (IntV i) = formatInt i"

definition badVerb :: "char \<Rightarrow> any \<Rightarrow> string" where
  "badVerb verb arg = ''%!'' @ [verb] @ ''('' @ typeName arg @ ''='' @ printValue arg @ '')''"

fun printArg :: "any \<Rightarrow> char \<Rightarrow> string" where
  "printArg (StringV s) verb = (if verb = CHR ''s'' \<or> verb = CHR ''v'' then s else badVerb verb (StringV s))"
| "printArg (IntV i) verb =
     (if verb = CHR ''d'' \<or> verb = CHR ''v'' then formatInt i else badVerb verb (IntV i))"

fun doPrint :: "nat \<Rightarrow> bool \<Rightarrow> any list \<Rightarrow> string" where
  "doPrint argNum prevString [] = []"
| "doPrint argNum prevString (arg # a) =
     (if argNum > 0 \<and> \<not> isString arg \<and> \<not> prevString then '' '' else [])
     @ printArg arg (CHR ''v'') @ doPrint (argNum + 1) (isString arg) a"

definition Sprint :: "any list \<Rightarrow> string" where
  "Sprint a = doPrint 0 False a"

text \<open>
  \<open>Sprintf\<close> is \<open>doPrintf\<close>, for the directives modelled here: text, \<open>%%\<close>, and the
  verbs \<open>%s\<close>, \<open>%v\<close> and \<open>%d\<close>, each optionally with an explicit argument index
  (\<open>%[2]d\<close>, one-based). A verb takes the operand at \<open>argNum\<close> and moves \<open>argNum\<close> past
  it; an index sets \<open>argNum\<close> first and marks the call as reordered. A verb with no
  operand left writes \<open>%!verb(MISSING)\<close>, a verb that does not fit its operand writes
  \<open>%!verb(type=value)\<close>, and operands left over at the end are reported as
  \<open>%!(EXTRA type=value, ...)\<close> unless the call is reordered. \<open>doPrintf\<close> answers
  \<open>None\<close> for a format with any other directive (flags, width, precision, other verbs,
  an index that is malformed or out of range); what \<open>fmt\<close> writes for such a format is
  the parameter \<open>other\<close> of \<open>Sprintf\<close>.
\<close>

datatype argIndex = NoIndex | Index nat | BadIndex

definition isDigit :: "char \<Rightarrow> bool" where
  "isDigit c = (48 \<le> byte c \<and> byte c \<le> 57)"

fun parsenum :: "nat \<Rightarrow> string \<Rightarrow> nat" where
  "parsenum num [] = num"
| "parsenum num (c # s) = parsenum (num * 10 + (byte c - 48)) s"

definition argNumber :: "string \<Rightarrow> nat \<Rightarrow> argIndex \<times> string" where
  "argNumber format numArgs =
     (case format of
        [] \<Rightarrow> (NoIndex, format)
      | c # r \<Rightarrow>
          if c \<noteq> CHR ''['' then (NoIndex, format)
          else
            (let ds = takeWhile isDigit r; n = parsenum 0 ds in
             case dropWhile isDigit r of
               [] \<Rightarrow> (BadIndex, [])
             | d # r' \<Rightarrow>
                 if d = CHR '']'' \<and> ds \<noteq> [] \<and> length ds \<le> 6 \<and> 1 \<le> n \<and> n \<le> numArgs
                 then (Index (n - 1), r') else (BadIndex, r')))"

definition missingArg :: "char \<Rightarrow> string" where
  "missingArg verb = ''%!'' @ [verb] @ ''(MISSING)''"

fun extraList :: "any list \<Rightarrow> string" where
  "extraList [] = []"
| "extraList [arg] = typeName arg @ ''='' @ printValue arg"
| "extraList (arg # a) = typeName arg @ ''='' @ printValue arg @ '', '' @ extraList a"

definition extraArgs :: "any list \<Rightarrow> string" where
  "extraArgs a = ''%!(EXTRA '' @ extraList a @ '')''"

definition isVerb :: "char \<Rightarrow> bool" where
  "isVerb c = (c = CHR ''s'' \<or> c = CHR ''v'' \<or> c = CHR ''d'')"

lemma argNumber_length: "length (snd (argNumber f n)) \<le> length f"
  using length_dropWhile_le [of isDigit "tl f"]
  by (cases f) (auto simp: argNumber_def Let_def split: list.splits)

lemma argNumber_rest: "(ix, verb # rest) = argNumber f n \<Longrightarrow> length rest < Suc (length f)"
  using argNumber_length [of f n] by (cases "argNumber f n") auto

function doPrintf :: "string \<Rightarrow> any list \<Rightarrow> nat \<Rightarrow> bool \<Rightarrow> string option" where
  "doPrintf [] a argNum reordered =
     Some (if \<not> reordered \<and> argNum < length a then extraArgs (drop argNum a) else [])"
| "doPrintf (c # format) a argNum reordered =
     (if c \<noteq> CHR ''%'' then map_option ((#) c) (doPrintf format a argNum reordered)
      else
        (case argNumber format (length a) of
           (BadIndex, rest) \<Rightarrow> None
         | (ix, []) \<Rightarrow> None
         | (ix, verb # rest) \<Rightarrow>
             (let argNum' = (case ix of Index n \<Rightarrow> n | _ \<Rightarrow> argNum);
                  reordered' = (reordered \<or> ix \<noteq> NoIndex)
              in if verb = CHR ''%'' then
                   map_option ((#) verb) (doPrintf rest a argNum' reordered')
                 else if \<not> isVerb verb then None
                 else if argNum' \<ge> length a then
                   map_option ((@) (missingArg verb)) (doPrintf rest a argNum' reordered')
                 else
                   map_option ((@) (printArg (a ! argNum') verb))
                     (doPrintf rest a (argNum' + 1) reordered'))))"
  by pat_completeness auto
termination
  by (relation "measure (\<lambda>(format, a, argNum, reordered). length format)")
     (auto dest: argNumber_rest)

definition Sprintf :: "(string \<Rightarrow> any list \<Rightarrow> string) \<Rightarrow> string \<Rightarrow> any list \<Rightarrow> string" where
  "Sprintf other format a =
     (case doPrintf format a 0 False of Some text \<Rightarrow> text | None \<Rightarrow> other format a)"

section \<open>The package: severities and the Logger\<close>

definition DEFAULT :: string where "DEFAULT = ''DEFAULT''"
definition INFO :: string where "INFO = ''INFO''"
definition NOTICE :: string where "NOTICE = ''NOTICE''"
definition WARN :: string where "WARN = ''WARNING''"
definition WARNING :: string where "WARNING = ''WARNING''"
definition ERR :: string where "ERR = ''ERROR''"
definition ERROR :: string where "ERROR = ''ERROR''"
definition CRIT :: string where "CRIT = ''CRITICAL''"
definition CRITICAL :: string where "CRITICAL = ''CRITICAL''"
definition ALERT :: string where "ALERT = ''ALERT''"
definition EMERGENCY :: string where "EMERGENCY = ''EMERGENCY''"
definition DEBUG :: string where "DEBUG = ''DEBUG''"

definition severityAll :: "string list" where
  "severityAll = [DEFAULT, INFO, NOTICE, WARNING, ERROR, CRITICAL, ALERT, EMERGENCY, DEBUG]"

record Logger =
  severity :: string

definition defaultLogger :: Logger where
  "defaultLogger = \<lparr>severity = DEFAULT\<rparr>"

text \<open>The \<open>for _, sev := range severityAll\<close> loop of \<open>isValidSeverity\<close>, with its early return.\<close>

fun rangeSeverity :: "string list \<Rightarrow> string \<Rightarrow> bool" where
  "rangeSeverity [] s = False"
| "rangeSeverity (sev # rest) s = (if s = sev then True else rangeSeverity rest s)"

definition isValidSeverity :: "(string \<Rightarrow> string) \<Rightarrow> string \<Rightarrow> bool" where
  "isValidSeverity mapUpper s = rangeSeverity severityAll (ToUpper mapUpper s)"

text \<open>\<open>New(s ...string)\<close>: the variadic arguments are the list \<open>s\<close>.\<close>

definition New :: "(string \<Rightarrow> string) \<Rightarrow> string list \<Rightarrow> Logger" where
  "New mapUpper s =
     (if length s \<ge> 1 then
        (if isValidSeverity mapUpper (s ! 0) then \<lparr>severity = s ! 0\<rparr> else defaultLogger)
      else defaultLogger)"

definition Severity :: "Logger \<Rightarrow> string" where
  "Severity l = severity l"

definition SetSeverity :: "(string \<Rightarrow> string) \<Rightarrow> Logger \<Rightarrow> string \<Rightarrow> Logger" where
  "SetSeverity mapUpper l s =
     (if isValidSeverity mapUpper (ToUpper mapUpper s)
      then l\<lparr>severity := ToUpper mapUpper s\<rparr> else l)"

text \<open>\<open>gcpLogMessage\<close>, with the field names of its JSON tags.\<close>

record gcpLogMessage =
  Severity_json :: string
  Message_json :: string

text \<open>
  \<open>json.Marshal\<close> of a \<open>gcpLogMessage\<close>: the two fields in the order of the struct, under
  the keys of their tags, with no white space. It cannot fail on this struct, and
  the method \<open>output\<close> drops its error.
\<close>

definition Marshal :: "jsonRelease \<Rightarrow> gcpLogMessage \<Rightarrow> string" where
  "Marshal rel m = ''{'' @ jsonString rel ''severity'' @ '':'' @ jsonString rel (Severity_json m) @ '',''
     @ jsonString rel ''message'' @ '':'' @ jsonString rel (Message_json m) @ ''}''"

text \<open>
  Standard output is the string of the bytes written so far; \<open>fmt.Print\<close> appends the
  \<open>Sprint\<close> of its operands to it. A call either returns to its caller or ends the
  process with \<open>os.Exit\<close>.
\<close>

type_synonym stdout = string

datatype outcome = Returns | Exits int

definition fmt_Print :: "any list \<Rightarrow> stdout \<Rightarrow> stdout" where
  "fmt_Print a out = out @ Sprint a"

definition Logger_output :: "jsonRelease \<Rightarrow> Logger \<Rightarrow> string \<Rightarrow> stdout \<Rightarrow> stdout" where
  "Logger_output rel l s out =
     fmt_Print [StringV (Marshal rel \<lparr>Severity_json = severity l, Message_json = TrimSpace s\<rparr>)] out"

text \<open>The method \<open>prefix\<close> of \<open>Logger\<close>.\<close>

definition Logger_prefix :: "Logger \<Rightarrow> any list \<Rightarrow> any list" where
  "Logger_prefix l v = [StringV (severity l), StringV '': ''] @ v"

definition Print :: "jsonRelease \<Rightarrow> Logger \<Rightarrow> any list \<Rightarrow> stdout \<Rightarrow> stdout \<times> outcome" where
  "Print rel l v out = (Logger_output rel l (Sprint v) out, Returns)"

definition Printf ::
  "jsonRelease \<Rightarrow> (string \<Rightarrow> any list \<Rightarrow> string) \<Rightarrow> Logger \<Rightarrow> string \<Rightarrow> any list \<Rightarrow> stdout
     \<Rightarrow> stdout \<times> outcome" where
  "Printf rel other l format v out = (Logger_output rel l (Sprintf other format v) out, Returns)"

definition Fatal :: "jsonRelease \<Rightarrow> Logger \<Rightarrow> any list \<Rightarrow> stdout \<Rightarrow> stdout \<times> outcome" where
  "Fatal rel l v out = (Logger_output rel l (Sprint v) out, Exits 1)"

definition Fatalf ::
  "jsonRelease \<Rightarrow> (string \<Rightarrow> any list \<Rightarrow> string) \<Rightarrow> Logger \<Rightarrow> string \<Rightarrow> any list \<Rightarrow> stdout
     \<Rightarrow> stdout \<times> outcome" where
  "Fatalf rel other l format v out = (Logger_output rel l (Sprintf other format v) out, Exits 1)"

definition PrefixPrint :: "jsonRelease \<Rightarrow> Logger \<Rightarrow> any list \<Rightarrow> stdout \<Rightarrow> stdout \<times> outcome" where
  "PrefixPrint rel l v out = (Logger_output rel l (Sprint (Logger_prefix l v)) out, Returns)"

definition PrefixPrintf ::
  "jsonRelease \<Rightarrow> (string \<Rightarrow> any list \<Rightarrow> string) \<Rightarrow> Logger \<Rightarrow> string \<Rightarrow> any list \<Rightarrow> stdout
     \<Rightarrow> stdout \<times> outcome" where
  "PrefixPrintf rel other l format v out =
     (Logger_output rel l (Sprintf other (''%s%s'' @ format) (Logger_prefix l v)) out, Returns)"

definition PrefixFatal :: "jsonRelease \<Rightarrow> Logger \<Rightarrow> any list \<Rightarrow> stdout \<Rightarrow> stdout \<times> outcome" where
  "PrefixFatal rel l v out = (Logger_output rel l (Sprint (Logger_prefix l v)) out, Exits 1)"

definition PrefixFatalf ::
  "jsonRelease \<Rightarrow> (string \<Rightarrow> any list \<Rightarrow> string) \<Rightarrow> Logger \<Rightarrow> string \<Rightarrow> any list \<Rightarrow> stdout
     \<Rightarrow> stdout \<times> outcome" where
  "PrefixFatalf rel other l format v out =
     (Logger_output rel l (Sprintf other (''%s%s'' @ format) (Logger_prefix l v)) out, Exits 1)"

text \<open>
  The theorems hold for every release of the encoder. Evaluations are at \<open>goRelease\<close>,
  which writes the short escapes of backspace and form feed and the three bytes of
  U+FFFD for an invalid byte. A string of ASCII bytes never reaches the Unicode path of
  \<open>ToUpper\<close>, and a format of the modelled directives never reaches the parameter of
  \<open>Sprintf\<close>; evaluations at such inputs pass \<open>noCaseTables\<close> and \<open>noOtherVerbs\<close> for
  these parameters.
\<close>

definition goRelease :: jsonRelease where
  "goRelease = \<lparr>shortEscapes = True, rawReplacement = True\<rparr>"

definition noCaseTables :: "string \<Rightarrow> string" where
  "noCaseTables s = s"

definition noOtherVerbs :: "string \<Rightarrow> any list \<Rightarrow> string" where
  "noOtherVerbs format a = []"

text \<open>
  A text consists of white space only when trimming it on the left leaves nothing.
\<close>

definition onlySpace :: "string \<Rightarrow> bool" where
  "onlySpace s = (TrimLeftSpace s = [])"

text \<open>
  The other side of the encoder, from the standards and not from the Go library: the
  UTF-8 encoding of a code point (RFC 3629), the Unicode scalar values, and the reading
  of a JSON string token (RFC 8259): between its two quotes a raw byte is neither a
  quote nor a control character, and a backslash starts one of the two-character
  escapes or a \<open>u\<close> escape of four hexadecimal digits, which stands for the UTF-8
  encoding of its code point. \<open>jsonUnquote\<close> answers \<open>None\<close> for anything else (and for
  an escape in the surrogate range, which the encoder never writes).
\<close>

definition scalar :: "nat \<Rightarrow> bool" where
  "scalar cp = (cp < 0xD800 \<or> (0xE000 \<le> cp \<and> cp < 0x110000))"

definition utf8Encode :: "nat \<Rightarrow> string" where
  "utf8Encode cp =
     (if cp < 0x80 then [char_of cp]
      else if cp < 0x800 then [char_of (0xC0 + cp div 64), char_of (0x80 + cp mod 64)]
      else if cp < 0x10000 then
        [char_of (0xE0 + cp div 4096), char_of (0x80 + cp div 64 mod 64),
         char_of (0x80 + cp mod 64)]
      else
        [char_of (0xF0 + cp div 262144), char_of (0x80 + cp div 4096 mod 64),
         char_of (0x80 + cp div 64 mod 64), char_of (0x80 + cp mod 64)])"

definition hexVal :: "char \<Rightarrow> nat option" where
  "hexVal c =
     (if 48 \<le> byte c \<and> byte c \<le> 57 then Some (byte c - 48)
      else if 97 \<le> byte c \<and> byte c \<le> 102 then Some (byte c - 87)
      else if 65 \<le> byte c \<and> byte c \<le> 70 then Some (byte c - 55)
      else None)"

definition simpleEscape :: "char \<Rightarrow> char option" where
  "simpleEscape e =
     (if e = CHR 0x22 \<or> e = CHR 0x5C \<or> e = CHR ''/'' then Some e
      else if e = CHR ''b'' then Some (CHR 0x08)
      else if e = CHR ''f'' then Some (CHR 0x0C)
      else if e = CHR ''n'' then Some (CHR 0x0A)
      else if e = CHR ''r'' then Some (CHR 0x0D)
      else if e = CHR ''t'' then Some (CHR 0x09)
      else None)"

definition hex4 :: "char \<Rightarrow> char \<Rightarrow> char \<Rightarrow> char \<Rightarrow> nat option" where
  "hex4 h1 h2 h3 h4 =
     (case (hexVal h1, hexVal h2, hexVal h3, hexVal h4) of
        (Some a, Some b, Some c, Some d) \<Rightarrow> Some (((a * 16 + b) * 16 + c) * 16 + d)
      | _ \<Rightarrow> None)"

fun unescape :: "string \<Rightarrow> string option" where
  "unescape [] = Some []"
| "unescape (c # s) =
     (if c = CHR 0x5C then
        (case s of
           [] \<Rightarrow> None
         | e # r \<Rightarrow>
             if e = CHR ''u'' then
               (case r of
                  h1 # h2 # h3 # h4 # r' \<Rightarrow>
                    (case hex4 h1 h2 h3 h4 of
                       Some cp \<Rightarrow>
                         if scalar cp then map_option ((@) (utf8Encode cp)) (unescape r')
                         else None
                     | None \<Rightarrow> None)
                | _ \<Rightarrow> None)
             else
               (case simpleEscape e of
                  Some x \<Rightarrow> map_option ((#) x) (unescape r)
                | None \<Rightarrow> None))
      else if c = CHR 0x22 \<or> byte c < 0x20 then None
      else map_option ((#) c) (unescape s))"

definition jsonUnquote :: "string \<Rightarrow> string option" where
  "jsonUnquote q =
     (case q of
        [] \<Rightarrow> None
      | c # r \<Rightarrow>
          if c = CHR 0x22 \<and> r \<noteq> [] \<and> last r = CHR 0x22 then unescape (butlast r) else None)"

text \<open>
  What the encoder makes of a text that is not well-formed UTF-8: every byte that starts
  no well-formed sequence stands as U+FFFD, and everything else stands as it is.
\<close>

function replaceInvalid :: "string \<Rightarrow> string" where
  "replaceInvalid [] = []"
| "replaceInvalid (c # s) =
     (if byte c < 0x80 then c # replaceInvalid s
      else if runeLen (c # s) = 0 then [CHR 0xEF, CHR 0xBF, CHR 0xBD] @ replaceInvalid s
      else take (runeLen (c # s)) (c # s) @ replaceInvalid (drop (runeLen (c # s)) (c # s)))"
  by pat_completeness auto
termination
  by (relation "measure length") auto

text \<open>
  A written piece stands for a text when reading it gives the text, whatever follows,
  and none of its bytes is a control character or one of \<open><\<close>, \<open>>\<close> and \<open>&\<close>.
\<close>

definition plainByte :: "char \<Rightarrow> bool" where
  "plainByte x = (32 \<le> byte x \<and> x \<noteq> CHR ''<'' \<and> x \<noteq> CHR ''>'' \<and> x \<noteq> CHR ''&'')"

definition standsFor :: "string \<Rightarrow> string \<Rightarrow> bool" where
  "standsFor piece dec =
     ((\<forall>r. unescape (piece @ r) = map_option ((@) dec) (unescape r)) \<and> list_all plainByte piece)"

text \<open>
  No white-space encoding is the head of another one, forwards or backwards; with that,
  stripping a concatenation of them strips all of it.
\<close>

definition prefixFree :: "string list \<Rightarrow> bool" where
  "prefixFree ps = list_all (\<lambda>p. list_all (\<lambda>q. \<not> prefix q p \<or> q = p) ps) ps"

section \<open>Severity validation\<close>

lemmas severity_defs =
  severityAll_def DEFAULT_def INFO_def NOTICE_def WARNING_def ERROR_def CRITICAL_def
  ALERT_def EMERGENCY_def DEBUG_def

lemmas upper_defs = ToUpper_def isASCII_def upperByte_def byte_def char_of_eq_iff

lemma rangeSeverity_set: "rangeSeverity sevs s = (s \<in> set sevs)"
  by (induction sevs) auto

lemma set_severityAll:
  "set severityAll = {''DEFAULT'', ''INFO'', ''NOTICE'', ''WARNING'', ''ERROR'', ''CRITICAL'',
     ''ALERT'', ''EMERGENCY'', ''DEBUG''}"
  by (simp add: severity_defs)

lemma isValid_set: "isValidSeverity mapUpper s = (ToUpper mapUpper s \<in> set severityAll)"
  by (simp add: isValidSeverity_def rangeSeverity_set)

lemma byte_upper:
  "97 \<le> byte c \<Longrightarrow> byte c \<le> 122 \<Longrightarrow> byte (char_of (byte c - 32)) = byte c - 32"
  unfolding byte_def of_char_of by (intro mod_less) arith

lemma upperByte_idem: "upperByte (upperByte c) = upperByte c"
  by (auto simp: upperByte_def byte_upper)

lemma upperByte_ascii: "byte c < 128 \<Longrightarrow> byte (upperByte c) < 128"
  by (auto simp: upperByte_def byte_upper)

lemma isASCII_upper: "isASCII s \<Longrightarrow> isASCII (map upperByte s)"
  by (induction s) (auto simp: isASCII_def upperByte_ascii)

lemma ToUpper_idem_ascii:
  "isASCII s \<Longrightarrow> ToUpper mapUpper (ToUpper mapUpper s) = ToUpper mapUpper s"
  by (simp add: ToUpper_def isASCII_upper upperByte_idem)


text \<open>
  C7: \<open>isValidSeverity s\<close> is true exactly when the upper-cased \<open>s\<close> is one of the nine
  canonical tokens. It is a function of its argument alone (and of the case mapping of
  the library), defined on every string.
\<close>

theorem isValidSeverity_iff:
  "isValidSeverity mapUpper s \<longleftrightarrow>
     ToUpper mapUpper s \<in> {''DEFAULT'', ''INFO'', ''NOTICE'', ''WARNING'', ''ERROR'',
       ''CRITICAL'', ''ALERT'', ''EMERGENCY'', ''DEBUG''}"
  using isValid_set [of mapUpper s] by (simp only: set_severityAll)

theorem isValidSeverity_iff_witness:
  "isValidSeverity noCaseTables ''Critical'' \<and> ToUpper noCaseTables ''Critical'' = ''CRITICAL''
   \<and> \<not> isValidSeverity noCaseTables ''WARN''"
  using isValidSeverity_iff [of noCaseTables "''Critical''"]
    isValidSeverity_iff [of noCaseTables "''WARN''"]
  by (simp add: upper_defs)

section \<open>Construction\<close>

text \<open>
  C9: \<open>New\<close> looks at its first argument only: the Logger of \<open>New(s1, s2, ..., sn)\<close> is the
  Logger of \<open>New(s1)\<close>, whatever the later arguments are.
\<close>

theorem New_first_argument_only: "New mapUpper (s # rest) = New mapUpper [s]"
  by (simp add: New_def)

theorem New_first_argument_only_witness:
  "New noCaseTables [''bogus'', ''ERROR''] = New noCaseTables [''bogus'']
   \<and> severity (New noCaseTables [''bogus'', ''ERROR'']) = ''DEFAULT''"
  using New_first_argument_only [of noCaseTables "''bogus''" "[''ERROR'']"]
  by (simp add: New_def isValid_set set_severityAll upper_defs defaultLogger_def DEFAULT_def)




section \<open>The stored severity\<close>

text \<open>
  C2: the nine tokens are not the only values a Logger can hold. \<open>New("debug")\<close> stores
  the lower-case string, a rejected \<open>SetSeverity\<close> leaves it there, and it is none of
  the canonical tokens.
\<close>

theorem stored_severity_not_canonical:
  "severity (SetSeverity noCaseTables (New noCaseTables [''debug'']) ''bogus'') = ''debug''
   \<and> ''debug'' \<notin> set severityAll"
  by (simp add: SetSeverity_def New_def isValid_set set_severityAll upper_defs)

text \<open>
  C4: after \<open>SetSeverity(s)\<close>, \<open>Severity()\<close> is the upper-cased \<open>s\<close> if that is one of the
  nine canonical tokens, and the severity held before otherwise; the call gives its
  caller nothing but the Logger. \<open>SetSeverity\<close> checks \<open>isValidSeverity\<close> on the
  upper-cased \<open>s\<close>, which upper-cases once more. For an ASCII \<open>s\<close> the second
  upper-casing changes nothing (\<open>ToUpper_idem_ascii\<close>); for any other \<open>s\<close> that is taken
  from the case tables of the library.
\<close>

theorem SetSeverity_Severity:
  assumes "isASCII s \<or> ToUpper mapUpper (ToUpper mapUpper s) = ToUpper mapUpper s"
  shows "Severity (SetSeverity mapUpper l s) =
     (if ToUpper mapUpper s \<in> set severityAll then ToUpper mapUpper s else Severity l)"
proof -
  from assms have "ToUpper mapUpper (ToUpper mapUpper s) = ToUpper mapUpper s"
    using ToUpper_idem_ascii [of s mapUpper] by blast
  then show ?thesis
    by (simp add: SetSeverity_def Severity_def isValid_set)
qed

theorem SetSeverity_Severity_witness:
  "isASCII ''critical'' \<and> isASCII ''warn''
   \<and> Severity (SetSeverity noCaseTables (New noCaseTables []) ''critical'') = ''CRITICAL''
   \<and> Severity (SetSeverity noCaseTables (New noCaseTables [''ALERT'']) ''warn'') = ''ALERT''"
proof -
  have a: "isASCII ''critical''" and b: "isASCII ''warn''"
    by (simp_all add: isASCII_def byte_def)
  have sev: "Severity (New noCaseTables [''ALERT'']) = ''ALERT''"
    by (simp add: Severity_def New_def isValid_set set_severityAll upper_defs)
  show ?thesis
    using a b sev
      SetSeverity_Severity [OF disjI1 [OF a], of noCaseTables "New noCaseTables []"]
      SetSeverity_Severity [OF disjI1 [OF b], of noCaseTables "New noCaseTables [''ALERT'']"]
    by (simp add: set_severityAll upper_defs)
qed

section \<open>Trimming white space\<close>

lemma headRune_SomeD:
  "headRune ps s = Some p \<Longrightarrow> p \<in> set ps \<and> p \<noteq> [] \<and> prefix p s"
  by (auto simp: headRune_def find_Some_iff)

lemma headRune_None_iff:
  "headRune ps s = None \<longleftrightarrow> (\<forall>p\<in>set ps. p \<noteq> [] \<longrightarrow> \<not> prefix p s)"
  by (auto simp: headRune_def find_None_iff)

lemma dropRunes_None: "headRune ps s = None \<Longrightarrow> dropRunes ps s = s"
  by (subst dropRunes.simps) simp

lemma dropRunes_Some:
  "headRune ps s = Some p \<Longrightarrow> dropRunes ps s = dropRunes ps (drop (length p) s)"
  by (subst dropRunes.simps) simp

lemma dropRunes_Nil: "dropRunes ps [] = []"
  by (rule dropRunes_None) (auto simp: headRune_None_iff)

lemma headRune_dropRunes: "headRune ps (dropRunes ps s) = None"
proof (induction ps s rule: dropRunes.induct)
  case (1 ps s)
  show ?case
  proof (cases "headRune ps s")
    case None
    then show ?thesis by (simp add: dropRunes_None)
  next
    case (Some p)
    with 1 show ?thesis by (simp add: dropRunes_Some)
  qed
qed

text \<open>What is dropped is a concatenation of runes, and what is kept is the rest.\<close>

lemma dropRunes_split:
  "\<exists>rs. set rs \<subseteq> set ps \<and> [] \<notin> set rs \<and> s = concat rs @ dropRunes ps s"
proof (induction ps s rule: dropRunes.induct)
  case (1 ps s)
  show ?case
  proof (cases "headRune ps s")
    case None
    then have "set [] \<subseteq> set ps \<and> [] \<notin> set ([]::string list) \<and> s = concat [] @ dropRunes ps s"
      by (simp add: dropRunes_None)
    then show ?thesis by blast
  next
    case (Some p)
    from 1 [OF Some] obtain rs where rs: "set rs \<subseteq> set ps" "[] \<notin> set rs"
      "drop (length p) s = concat rs @ dropRunes ps (drop (length p) s)"
      by blast
    from headRune_SomeD [OF Some] have p: "p \<in> set ps" "p \<noteq> []" "prefix p s"
      by auto
    from p(3) have "s = p @ drop (length p) s"
      by (auto simp: prefix_def)
    with rs(3) have "s = concat (p # rs) @ dropRunes ps s"
      by (simp add: dropRunes_Some [OF Some])
    moreover have "set (p # rs) \<subseteq> set ps \<and> [] \<notin> set (p # rs)"
      using rs p by auto
    ultimately show ?thesis by blast
  qed
qed

lemma prefixFree_spaceRunes: "prefixFree spaceRunes"
  by code_simp

lemma prefixFree_rev_spaceRunes: "prefixFree (map rev spaceRunes)"
  by code_simp

lemma prefixFreeD: "prefixFree ps \<Longrightarrow> p \<in> set ps \<Longrightarrow> q \<in> set ps \<Longrightarrow> prefix q p \<Longrightarrow> q = p"
  by (auto simp: prefixFree_def list_all_iff)

lemma headRune_append:
  assumes "prefixFree ps" "p \<in> set ps" "p \<noteq> []"
  shows "headRune ps (p @ x) = Some p"
proof (cases "headRune ps (p @ x)")
  case None
  with assms show ?thesis by (auto simp: headRune_None_iff)
next
  case (Some q)
  from headRune_SomeD [OF Some] have q: "q \<in> set ps" "q \<noteq> []" "prefix q (p @ x)"
    by auto
  from q(3) have "prefix q p \<or> prefix p q"
    by (metis prefix_append prefixI prefix_same_cases)
  then have "q = p"
    using prefixFreeD [OF assms(1) assms(2) q(1)] prefixFreeD [OF assms(1) q(1) assms(2)]
    by auto
  with Some show ?thesis by simp
qed

lemma dropRunes_rune:
  "prefixFree ps \<Longrightarrow> p \<in> set ps \<Longrightarrow> p \<noteq> [] \<Longrightarrow> dropRunes ps (p @ x) = dropRunes ps x"
  by (simp add: dropRunes_Some [OF headRune_append])

lemma dropRunes_concat:
  "prefixFree ps \<Longrightarrow> set rs \<subseteq> set ps \<Longrightarrow> [] \<notin> set rs \<Longrightarrow>
   dropRunes ps (concat rs @ x) = dropRunes ps x"
  by (induction rs) (auto simp: dropRunes_rune)

lemma prefix_append_Cons: "prefix p (a @ c # y) \<Longrightarrow> prefix p a \<or> c \<in> set p"
  by (auto simp: prefix_append prefix_Cons)

lemma spaceRunes_colon: "list_all (\<lambda>p. p \<noteq> [] \<and> CHR '':'' \<notin> set p) spaceRunes"
  by (simp add: spaceRunes_def)

lemma colon_not_space: "p \<in> set spaceRunes \<Longrightarrow> CHR '':'' \<notin> set p"
  using spaceRunes_colon by (simp add: list_all_iff)

lemma spaceRunes_nonempty: "[] \<notin> set spaceRunes"
  using spaceRunes_colon by (auto simp: list_all_iff)

lemma colon_not_space_rev: "p \<in> set (map rev spaceRunes) \<Longrightarrow> CHR '':'' \<notin> set p"
  using colon_not_space by auto

lemma onlySpace_concat: "set rs \<subseteq> set spaceRunes \<Longrightarrow> onlySpace (concat rs)"
proof -
  assume rs: "set rs \<subseteq> set spaceRunes"
  have "[] \<notin> set spaceRunes"
    by (rule spaceRunes_nonempty)
  with rs have "[] \<notin> set rs" by blast
  with rs have "dropRunes spaceRunes (concat rs @ []) = dropRunes spaceRunes []"
    by (intro dropRunes_concat prefixFree_spaceRunes)
  then show ?thesis
    by (simp add: onlySpace_def TrimLeftSpace_def dropRunes_Nil)
qed

lemma onlySpace_concatD: "onlySpace s \<Longrightarrow> \<exists>rs. set rs \<subseteq> set spaceRunes \<and> s = concat rs"
  using dropRunes_split [of spaceRunes s] by (auto simp: onlySpace_def TrimLeftSpace_def)

lemma TrimLeftSpace_split: "\<exists>pre. s = pre @ TrimLeftSpace s \<and> onlySpace pre"
  using dropRunes_split [of spaceRunes s] onlySpace_concat
  unfolding TrimLeftSpace_def by blast

lemma TrimRightSpace_split: "\<exists>post. s = TrimRightSpace s @ post \<and> onlySpace post"
proof -
  obtain rs where rs: "set rs \<subseteq> set (map rev spaceRunes)"
    and s: "rev s = concat rs @ dropRunes (map rev spaceRunes) (rev s)"
    using dropRunes_split [of "map rev spaceRunes" "rev s"] by blast
  have "rev (rev s) = rev (dropRunes (map rev spaceRunes) (rev s)) @ rev (concat rs)"
    by (subst s) simp
  then have eq: "s = TrimRightSpace s @ concat (map rev (rev rs))"
    by (simp add: TrimRightSpace_def rev_concat)
  have "set (map rev (rev rs)) \<subseteq> set spaceRunes"
    using rs by auto
  then have "onlySpace (concat (map rev (rev rs)))"
    by (rule onlySpace_concat)
  with eq show ?thesis by blast
qed

lemma TrimSpace_split:
  "\<exists>pre post. s = pre @ TrimSpace s @ post \<and> onlySpace pre \<and> onlySpace post"
proof -
  obtain pre where pre: "s = pre @ TrimLeftSpace s" "onlySpace pre"
    using TrimLeftSpace_split by blast
  obtain post where post: "TrimLeftSpace s = TrimRightSpace (TrimLeftSpace s) @ post"
    "onlySpace post"
    using TrimRightSpace_split by blast
  have "s = pre @ TrimSpace s @ post"
    using pre(1) post(1) by (simp add: TrimSpace_def)
  with pre(2) post(2) show ?thesis by blast
qed

lemma TrimSpace_no_trailing: "headRune (map rev spaceRunes) (rev (TrimSpace s)) = None"
  by (simp add: TrimSpace_def TrimRightSpace_def headRune_dropRunes)

lemma TrimSpace_no_leading: "headRune spaceRunes (TrimSpace s) = None"
proof -
  obtain post where post: "TrimLeftSpace s = TrimSpace s @ post"
    using TrimRightSpace_split [of "TrimLeftSpace s"] by (auto simp: TrimSpace_def)
  have "headRune spaceRunes (TrimLeftSpace s) = None"
    by (simp add: TrimLeftSpace_def headRune_dropRunes)
  then show ?thesis
    unfolding headRune_None_iff by (subst (asm) post) (auto simp: prefix_def)
qed


lemma headRune_colon:
  assumes "headRune spaceRunes sev = None"
  shows "headRune spaceRunes (sev @ CHR '':'' # y) = None"
proof -
  have "\<not> prefix p (sev @ CHR '':'' # y)" if p: "p \<in> set spaceRunes" "p \<noteq> []" for p
  proof
    assume "prefix p (sev @ CHR '':'' # y)"
    then have "prefix p sev \<or> CHR '':'' \<in> set p"
      by (rule prefix_append_Cons)
    moreover have "\<not> prefix p sev"
      using assms p unfolding headRune_None_iff by blast
    moreover have "CHR '':'' \<notin> set p"
      using p(1) by (rule colon_not_space)
    ultimately show False by blast
  qed
  then show ?thesis
    unfolding headRune_None_iff by blast
qed

lemma headRune_rev_colon: "headRune (map rev spaceRunes) (CHR '':'' # y) = None"
  unfolding headRune_None_iff
proof (intro ballI impI)
  fix p assume p: "p \<in> set (map rev spaceRunes)" "p \<noteq> []"
  then have "CHR '':'' \<notin> set p" using colon_not_space_rev by blast
  with p(2) show "\<not> prefix p (CHR '':'' # y)"
    by (cases p) (auto simp: prefix_Cons)
qed

lemma TrimSpace_prefixed:
  assumes sev: "headRune spaceRunes sev = None" and t: "onlySpace t"
  shows "TrimSpace (sev @ '': '' @ t) = sev @ '':''"
proof -
  have left: "TrimLeftSpace (sev @ '': '' @ t) = sev @ '': '' @ t"
    using headRune_colon [OF sev] by (simp add: TrimLeftSpace_def dropRunes_None)
  obtain rs where rs: "set rs \<subseteq> set spaceRunes" "t = concat rs"
    using onlySpace_concatD [OF t] by blast
  have sp: "'' '' \<in> set spaceRunes"
    by (simp add: spaceRunes_def)
  define rs' where "rs' = map rev (rev ('' '' # rs))"
  have r: "rev (sev @ '': '' @ t) = concat rs' @ CHR '':'' # rev sev"
    by (simp add: rs(2) rev_concat rs'_def)
  have sub: "set rs' \<subseteq> set (map rev spaceRunes)"
    using rs(1) sp by (auto simp: rs'_def)
  have ne: "[] \<notin> set rs'"
    using rs(1) spaceRunes_nonempty by (auto simp: rs'_def)
  have "dropRunes (map rev spaceRunes) (rev (sev @ '': '' @ t))
      = dropRunes (map rev spaceRunes) (CHR '':'' # rev sev)"
    unfolding r by (rule dropRunes_concat [OF prefixFree_rev_spaceRunes sub ne])
  also have "\<dots> = CHR '':'' # rev sev"
    by (rule dropRunes_None) (rule headRune_rev_colon)
  finally have right: "TrimRightSpace (sev @ '': '' @ t) = rev (CHR '':'' # rev sev)"
    by (simp only: TrimRightSpace_def)
  have "TrimSpace (sev @ '': '' @ t) = TrimRightSpace (sev @ '': '' @ t)"
    by (simp only: TrimSpace_def left)
  also have "\<dots> = sev @ '':''"
    by (simp only: right) simp
  finally show ?thesis .
qed


section \<open>JSON strings\<close>

text \<open>
  The encoder is compared with an independent reader of JSON strings (RFC 8259) and with
  the UTF-8 encoding of RFC 3629: reading back what \<open>appendString\<close> writes gives the
  text with U+FFFD in place of each invalid byte, and a well-formed text is given back
  unchanged, in every release. Every byte written between the quotes is at least 32 and
  none of \<open><\<close>, \<open>>\<close>, \<open>&\<close>.
\<close>

lemma htmlSafe_ascii: "htmlSafe c \<Longrightarrow> byte c < 128"
  by (simp add: htmlSafe_def)

lemma appendString_safe: "list_all htmlSafe s \<Longrightarrow> appendString rel s = s"
  by (induction s) (auto simp: htmlSafe_ascii)

lemma byte_char_of: "n < 256 \<Longrightarrow> byte (char_of n) = n"
  by (simp add: byte_def)

lemma char_of_byte: "char_of (byte c) = c"
  by (simp add: byte_def)

lemma byte_less: "byte c < 256"
  by (simp add: byte_def)

lemma hexVal_hexDigit: "n < 16 \<Longrightarrow> hexVal (hexDigit n) = Some n"
  by (auto simp: hexVal_def hexDigit_def byte_char_of)

lemma plainByteI:
  "32 \<le> byte x \<Longrightarrow> byte x \<noteq> 60 \<Longrightarrow> byte x \<noteq> 62 \<Longrightarrow> byte x \<noteq> 38 \<Longrightarrow> plainByte x"
  by (auto simp: plainByte_def byte_def)

lemma hexDigit_plain: "n < 16 \<Longrightarrow> plainByte (hexDigit n)"
  by (rule plainByteI) (auto simp: hexDigit_def byte_char_of)

lemma append_single: "(@) [c] = (#) c"
  by (rule ext) simp

lemma hexVal_zero: "hexVal (CHR ''0'') = Some 0"
  by (simp add: hexVal_def byte_def)

lemma utf8Encode_ascii: "byte c < 128 \<Longrightarrow> utf8Encode (byte c) = [c]"
  by (simp add: utf8Encode_def char_of_byte)

lemma unescape_u00:
  assumes "byte c < 128"
  shows "unescape ([CHR 0x5C, CHR ''u'', CHR ''0'', CHR ''0'',
            hexDigit (byte c div 16), hexDigit (byte c mod 16)] @ r)
    = map_option ((@) [c]) (unescape r)"
proof -
  have hi: "byte c div 16 < 16" using assms by simp
  have lo: "byte c mod 16 < 16" by simp
  have "hex4 (CHR ''0'') (CHR ''0'') (hexDigit (byte c div 16)) (hexDigit (byte c mod 16))
      = Some (byte c)"
    by (simp add: hex4_def hexVal_zero hexVal_hexDigit [OF hi] hexVal_hexDigit [OF lo])
  moreover have "scalar (byte c)"
    using assms by (simp add: scalar_def)
  ultimately show ?thesis
    by (simp add: utf8Encode_ascii [OF assms])
qed

lemma standsFor_safe: "htmlSafe c \<Longrightarrow> standsFor [c] [c]"
  by (auto simp: standsFor_def plainByte_def htmlSafe_def append_single)

lemma standsFor_u00:
  assumes "byte c < 128"
  shows "standsFor [CHR 0x5C, CHR ''u'', CHR ''0'', CHR ''0'',
            hexDigit (byte c div 16), hexDigit (byte c mod 16)] [c]"
proof -
  have h1: "plainByte (hexDigit (byte c div 16))"
    using assms by (intro hexDigit_plain) simp
  have h2: "plainByte (hexDigit (byte c mod 16))"
    by (intro hexDigit_plain) simp
  have "plainByte (CHR 0x5C)" "plainByte (CHR ''u'')" "plainByte (CHR ''0'')"
    by (simp_all add: plainByte_def byte_def)
  with h1 h2 show ?thesis
    unfolding standsFor_def using unescape_u00 [OF assms] by simp
qed

lemma standsFor_short:
  "simpleEscape e = Some c \<Longrightarrow> plainByte e \<Longrightarrow> standsFor [CHR 0x5C, e] [c]"
  by (cases "e = CHR ''u''")
     (auto simp: standsFor_def simpleEscape_def plainByte_def byte_def append_single
       split: if_splits)

lemma escapeByte_u:
  "\<not> (c = CHR 0x5C \<or> c = CHR 0x22) \<Longrightarrow> \<not> (c = CHR 0x08 \<and> shortEscapes rel) \<Longrightarrow>
   \<not> (c = CHR 0x0C \<and> shortEscapes rel) \<Longrightarrow> c \<noteq> CHR 0x0A \<Longrightarrow> c \<noteq> CHR 0x0D \<Longrightarrow>
   c \<noteq> CHR 0x09 \<Longrightarrow>
   escapeByte rel c = [CHR 0x5C, CHR ''u'', CHR ''0'', CHR ''0'',
            hexDigit (byte c div 16), hexDigit (byte c mod 16)]"
  by (simp add: escapeByte_def)

lemma standsFor_escapeByte:
  assumes "byte c < 128" and "\<not> htmlSafe c"
  shows "standsFor (escapeByte rel c) [c]"
proof -
  consider (same) "c = CHR 0x5C \<or> c = CHR 0x22"
    | (b) "c = CHR 0x08" "shortEscapes rel"
    | (f) "c = CHR 0x0C" "shortEscapes rel"
    | (n) "c = CHR 0x0A" | (r) "c = CHR 0x0D" | (t) "c = CHR 0x09"
    | (u) "escapeByte rel c = [CHR 0x5C, CHR ''u'', CHR ''0'', CHR ''0'',
            hexDigit (byte c div 16), hexDigit (byte c mod 16)]"
    using escapeByte_u [of c rel] by blast
  then show ?thesis
  proof cases
    case same
    then have "escapeByte rel c = [CHR 0x5C, c]" "simpleEscape c = Some c" "plainByte c"
      by (auto simp: escapeByte_def simpleEscape_def plainByte_def byte_def)
    then show ?thesis by (simp add: standsFor_short)
  next
    case b
    then have "escapeByte rel c = [CHR 0x5C, CHR ''b'']"
      by (simp add: escapeByte_def)
    moreover have "simpleEscape (CHR ''b'') = Some c" "plainByte (CHR ''b'')"
      using b by (simp_all add: simpleEscape_def plainByte_def byte_def)
    ultimately show ?thesis by (simp add: standsFor_short)
  next
    case f
    then have "escapeByte rel c = [CHR 0x5C, CHR ''f'']"
      by (simp add: escapeByte_def)
    moreover have "simpleEscape (CHR ''f'') = Some c" "plainByte (CHR ''f'')"
      using f by (simp_all add: simpleEscape_def plainByte_def byte_def)
    ultimately show ?thesis by (simp add: standsFor_short)
  next
    case n
    then have "escapeByte rel c = [CHR 0x5C, CHR ''n'']"
      by (simp add: escapeByte_def)
    moreover have "simpleEscape (CHR ''n'') = Some c" "plainByte (CHR ''n'')"
      using n by (simp_all add: simpleEscape_def plainByte_def byte_def)
    ultimately show ?thesis by (simp add: standsFor_short)
  next
    case r
    then have "escapeByte rel c = [CHR 0x5C, CHR ''r'']"
      by (simp add: escapeByte_def)
    moreover have "simpleEscape (CHR ''r'') = Some c" "plainByte (CHR ''r'')"
      using r by (simp_all add: simpleEscape_def plainByte_def byte_def)
    ultimately show ?thesis by (simp add: standsFor_short)
  next
    case t
    then have "escapeByte rel c = [CHR 0x5C, CHR ''t'']"
      by (simp add: escapeByte_def)
    moreover have "simpleEscape (CHR ''t'') = Some c" "plainByte (CHR ''t'')"
      using t by (simp_all add: simpleEscape_def plainByte_def byte_def)
    ultimately show ?thesis by (simp add: standsFor_short)
  next
    case u
    then show ?thesis using standsFor_u00 [OF assms(1)] by simp
  qed
qed

lemma utf8Encode_FFFD: "utf8Encode 0xFFFD = [CHR 0xEF, CHR 0xBF, CHR 0xBD]"
  by (simp add: utf8Encode_def char_of_eq_iff)

lemma utf8Encode_2028: "utf8Encode 0x2028 = [CHR 0xE2, CHR 0x80, CHR 0xA8]"
  by (simp add: utf8Encode_def char_of_eq_iff)

lemma utf8Encode_2029: "utf8Encode 0x2029 = [CHR 0xE2, CHR 0x80, CHR 0xA9]"
  by (simp add: utf8Encode_def char_of_eq_iff)

lemma unescape_high:
  "list_all (\<lambda>x. 128 \<le> byte x) xs \<Longrightarrow> unescape (xs @ r) = map_option ((@) xs) (unescape r)"
proof (induction xs)
  case Nil
  then show ?case by (simp add: option.map_ident)
next
  case (Cons x xs)
  then have "x \<noteq> CHR 0x5C" "x \<noteq> CHR 0x22" "\<not> byte x < 32"
    by (auto simp: byte_def)
  with Cons show ?case
    by (simp add: option.map_comp comp_def)
qed

lemma standsFor_high: "list_all (\<lambda>x. 128 \<le> byte x) xs \<Longrightarrow> standsFor xs xs"
proof -
  assume hi: "list_all (\<lambda>x. 128 \<le> byte x) xs"
  then have "list_all plainByte xs"
    by (induction xs) (auto simp: plainByte_def byte_def)
  with unescape_high [OF hi] show ?thesis
    by (simp add: standsFor_def)
qed

lemma standsFor_replacement: "standsFor (replacement rel) [CHR 0xEF, CHR 0xBF, CHR 0xBD]"
proof (cases "rawReplacement rel")
  case True
  then show ?thesis
    using standsFor_high [of "[CHR 0xEF, CHR 0xBF, CHR 0xBD]"]
    by (simp add: replacement_def byte_def)
next
  case False
  have "hex4 (CHR ''f'') (CHR ''f'') (CHR ''f'') (CHR ''d'') = Some 0xFFFD"
    by (simp add: hex4_def hexVal_def byte_def)
  moreover have "scalar 0xFFFD"
    by (simp add: scalar_def)
  ultimately show ?thesis
    using False
    by (simp add: standsFor_def replacement_def plainByte_def byte_def utf8Encode_FFFD)
qed

lemma standsFor_2028:
  "standsFor [CHR 0x5C, CHR ''u'', CHR ''2'', CHR ''0'', CHR ''2'', CHR ''8'']
     [CHR 0xE2, CHR 0x80, CHR 0xA8]"
proof -
  have "hex4 (CHR ''2'') (CHR ''0'') (CHR ''2'') (CHR ''8'') = Some 0x2028"
    by (simp add: hex4_def hexVal_def byte_def)
  moreover have "scalar 0x2028"
    by (simp add: scalar_def)
  ultimately show ?thesis
    by (simp add: standsFor_def plainByte_def byte_def utf8Encode_2028)
qed

lemma standsFor_2029:
  "standsFor [CHR 0x5C, CHR ''u'', CHR ''2'', CHR ''0'', CHR ''2'', CHR ''9'']
     [CHR 0xE2, CHR 0x80, CHR 0xA9]"
proof -
  have "hex4 (CHR ''2'') (CHR ''0'') (CHR ''2'') (CHR ''9'') = Some 0x2029"
    by (simp add: hex4_def hexVal_def byte_def)
  moreover have "scalar 0x2029"
    by (simp add: scalar_def)
  ultimately show ?thesis
    by (simp add: standsFor_def plainByte_def byte_def utf8Encode_2029)
qed


lemma runeLen_high:
  "128 \<le> byte c \<Longrightarrow> list_all (\<lambda>x. 128 \<le> byte x) (take (runeLen (c # s)) (c # s))"
  by (auto simp: size3_def size4_def inRange_def take_Suc_Cons numeral_3_eq_3 numeral_2_eq_2
      split: list.splits if_splits)

lemma take3D: "take 3 (c # s) = [x, y, z] \<Longrightarrow> \<exists>s'. c = x \<and> s = y # z # s'"
  by (cases s; cases "tl s") (auto simp: take_Suc_Cons numeral_3_eq_3)

lemma runeLen_E2_80:
  assumes "take 3 (c # s) = [CHR 0xE2, CHR 0x80, z]" and "128 \<le> byte z" and "byte z \<le> 191"
  shows "runeLen (c # s) = 3"
proof -
  obtain s' where "c = CHR 0xE2" "s = CHR 0x80 # z # s'"
    using take3D [OF assms(1)] by blast
  then show ?thesis
    using assms(2,3) by (simp add: size3_def inRange_def byte_def)
qed

lemma ne89: "([CHR 0xE2, CHR 0x80, CHR 0xA9] = [CHR 0xE2, CHR 0x80, CHR 0xA8]) = False"
  by simp

lemma stepI:
  "appendString rel (c # s) = piece @ appendString rel rest \<Longrightarrow>
   replaceInvalid (c # s) = dec @ replaceInvalid rest \<Longrightarrow>
   length rest < length (c # s) \<Longrightarrow> standsFor piece dec \<Longrightarrow>
   \<exists>piece dec rest. appendString rel (c # s) = piece @ appendString rel rest
     \<and> replaceInvalid (c # s) = dec @ replaceInvalid rest
     \<and> length rest < length (c # s) \<and> standsFor piece dec"
  by blast

lemma appendString_step:
  "\<exists>piece dec rest. appendString rel (c # s) = piece @ appendString rel rest
     \<and> replaceInvalid (c # s) = dec @ replaceInvalid rest
     \<and> length rest < length (c # s) \<and> standsFor piece dec"
proof (cases "byte c < 128")
  case True
  have st: "standsFor (if htmlSafe c then [c] else escapeByte rel c) [c]"
  proof (cases "htmlSafe c")
    case True
    then show ?thesis by (simp only: if_True standsFor_safe)
  next
    case False
    then show ?thesis
      using standsFor_escapeByte [OF True False, of rel] by (simp only: if_False)
  qed
  have a: "appendString rel (c # s)
      = (if htmlSafe c then [c] else escapeByte rel c) @ appendString rel s"
    by (subst appendString.simps) (simp only: True if_True)
  have b: "replaceInvalid (c # s) = [c] @ replaceInvalid s"
    by (subst replaceInvalid.simps) (simp only: True if_True append.simps)
  have l: "length s < length (c # s)" by simp
  show ?thesis by (rule stepI [OF a b l st])
next
  case False
  note hi = False
  show ?thesis
  proof (cases "runeLen (c # s) = 0")
    case True
    have a: "appendString rel (c # s) = replacement rel @ appendString rel s"
      by (subst appendString.simps) (simp only: hi True if_False if_True simp_thms)
    have b: "replaceInvalid (c # s) = [CHR 0xEF, CHR 0xBF, CHR 0xBD] @ replaceInvalid s"
      by (subst replaceInvalid.simps) (simp only: hi True if_False if_True simp_thms)
    have l: "length s < length (c # s)" by simp
    show ?thesis by (rule stepI [OF a b l standsFor_replacement])
  next
    case False
    note valid = False
    define n where "n = runeLen (c # s)"
    have n: "n \<noteq> 0" using valid unfolding n_def .
    have raw: "replaceInvalid (c # s) = take n (c # s) @ replaceInvalid (drop n (c # s))"
      unfolding n_def by (subst replaceInvalid.simps) (simp only: hi valid if_False simp_thms)
    have shorter: "length (drop n (c # s)) < length (c # s)"
      using n by simp
    have high: "list_all (\<lambda>x. 128 \<le> byte x) (take n (c # s))"
      unfolding n_def using hi by (intro runeLen_high) simp
    show ?thesis
    proof (cases "take 3 (c # s) = [CHR 0xE2, CHR 0x80, CHR 0xA8]")
      case True
      have n3: "n = 3"
        unfolding n_def by (rule runeLen_E2_80 [OF True]) (simp_all add: byte_def)
      have a: "appendString rel (c # s)
          = [CHR 0x5C, CHR ''u'', CHR ''2'', CHR ''0'', CHR ''2'', CHR ''8'']
            @ appendString rel (drop 3 (c # s))"
        by (subst appendString.simps) (simp only: hi valid True if_False if_True simp_thms)
      have b: "replaceInvalid (c # s)
          = [CHR 0xE2, CHR 0x80, CHR 0xA8] @ replaceInvalid (drop 3 (c # s))"
        using raw unfolding n3 True .
      show ?thesis by (rule stepI [OF a b shorter [unfolded n3] standsFor_2028])
    next
      case False
      note n8 = False
      show ?thesis
      proof (cases "take 3 (c # s) = [CHR 0xE2, CHR 0x80, CHR 0xA9]")
        case True
        have n3: "n = 3"
          unfolding n_def by (rule runeLen_E2_80 [OF True]) (simp_all add: byte_def)
        have a: "appendString rel (c # s)
            = [CHR 0x5C, CHR ''u'', CHR ''2'', CHR ''0'', CHR ''2'', CHR ''9'']
              @ appendString rel (drop 3 (c # s))"
          by (subst appendString.simps) (simp only: hi valid True ne89 if_False if_True simp_thms)
        have b: "replaceInvalid (c # s)
            = [CHR 0xE2, CHR 0x80, CHR 0xA9] @ replaceInvalid (drop 3 (c # s))"
          using raw unfolding n3 True .
        show ?thesis by (rule stepI [OF a b shorter [unfolded n3] standsFor_2029])
      next
        case False
        have a: "appendString rel (c # s) = take n (c # s) @ appendString rel (drop n (c # s))"
          unfolding n_def
          by (subst appendString.simps) (simp only: hi valid n8 False if_False simp_thms)
        show ?thesis by (rule stepI [OF a raw shorter standsFor_high [OF high]])
      qed
    qed
  qed
qed

lemma unescape_appendString: "unescape (appendString rel s) = Some (replaceInvalid s)"
proof (induction s rule: measure_induct_rule [where f = length])
  case (less s)
  show ?case
  proof (cases s)
    case Nil
    then show ?thesis by simp
  next
    case (Cons c r)
    obtain piece dec rest where step:
      "appendString rel (c # r) = piece @ appendString rel rest"
      "replaceInvalid (c # r) = dec @ replaceInvalid rest"
      "length rest < length (c # r)" "standsFor piece dec"
      using appendString_step [of rel c r] by blast
    have ih: "unescape (appendString rel rest) = Some (replaceInvalid rest)"
      using step(3) Cons by (intro less.IH) simp
    have "unescape (piece @ appendString rel rest)
        = map_option ((@) dec) (unescape (appendString rel rest))"
      using step(4) unfolding standsFor_def by blast
    then show ?thesis
      unfolding Cons step(1) step(2) ih by simp
  qed
qed

lemma appendString_plain: "list_all plainByte (appendString rel s)"
proof (induction s rule: measure_induct_rule [where f = length])
  case (less s)
  show ?case
  proof (cases s)
    case Nil
    then show ?thesis by simp
  next
    case (Cons c r)
    obtain piece dec rest where step:
      "appendString rel (c # r) = piece @ appendString rel rest"
      "length rest < length (c # r)" "standsFor piece dec"
      using appendString_step [of rel c r] by blast
    have ih: "list_all plainByte (appendString rel rest)"
      using step(2) Cons by (intro less.IH) simp
    have "list_all plainByte piece"
      using step(3) unfolding standsFor_def by blast
    with ih show ?thesis
      unfolding Cons step(1) by simp
  qed
qed

lemma jsonUnquote_jsonString: "jsonUnquote (jsonString rel s) = Some (replaceInvalid s)"
  by (simp add: jsonUnquote_def jsonString_def unescape_appendString butlast_append)

lemma jsonString_plain: "list_all plainByte (jsonString rel s)"
  using appendString_plain [of rel s] by (simp add: jsonString_def plainByte_def byte_def)

lemma runeLen2:
  "194 \<le> byte a \<Longrightarrow> byte a \<le> 223 \<Longrightarrow> 128 \<le> byte b \<Longrightarrow> byte b \<le> 191 \<Longrightarrow>
   runeLen (a # b # r) = 2"
  by (simp add: inRange_def)

lemma runeLen3:
  "224 \<le> byte a \<Longrightarrow> byte a \<le> 239 \<Longrightarrow> 128 \<le> byte b \<Longrightarrow> byte b \<le> 191 \<Longrightarrow>
   (byte a = 224 \<longrightarrow> 160 \<le> byte b) \<Longrightarrow> (byte a = 237 \<longrightarrow> byte b \<le> 159) \<Longrightarrow>
   128 \<le> byte c \<Longrightarrow> byte c \<le> 191 \<Longrightarrow> runeLen (a # b # c # r) = 3"
  by (auto simp: inRange_def size3_def)

lemma runeLen4:
  "240 \<le> byte a \<Longrightarrow> byte a \<le> 244 \<Longrightarrow> 128 \<le> byte b \<Longrightarrow> byte b \<le> 191 \<Longrightarrow>
   (byte a = 240 \<longrightarrow> 144 \<le> byte b) \<Longrightarrow> (byte a = 244 \<longrightarrow> byte b \<le> 143) \<Longrightarrow>
   128 \<le> byte c \<Longrightarrow> byte c \<le> 191 \<Longrightarrow> 128 \<le> byte d \<Longrightarrow> byte d \<le> 191 \<Longrightarrow>
   runeLen (a # b # c # d # r) = 4"
  by (auto simp: inRange_def size4_def)

lemma replaceInvalid_rune:
  "128 \<le> byte a \<Longrightarrow> runeLen (a # s) = n \<Longrightarrow> n \<noteq> 0 \<Longrightarrow>
   replaceInvalid (a # s) = take n (a # s) @ replaceInvalid (drop n (a # s))"
  by (subst replaceInvalid.simps) simp

lemma mod64_D: "(53248::nat) \<le> cp \<Longrightarrow> cp < 55296 \<Longrightarrow> cp div 64 mod 64 < 32"
proof -
  assume lo: "53248 \<le> cp" and hi: "cp < 55296"
  define q where "q = cp div 64"
  have "832 \<le> q" unfolding q_def using lo by simp
  moreover have "q < 864" unfolding q_def using hi by simp
  ultimately have "q mod 64 < 32" by arith
  then show ?thesis by (simp add: q_def)
qed

lemma mod64_top: "(1048576::nat) \<le> cp \<Longrightarrow> cp < 1114112 \<Longrightarrow> cp div 4096 mod 64 < 16"
proof -
  assume lo: "1048576 \<le> cp" and hi: "cp < 1114112"
  define q where "q = cp div 4096"
  have "256 \<le> q" unfolding q_def using lo by simp
  moreover have "q < 272" unfolding q_def using hi by simp
  ultimately have "q mod 64 < 16" by arith
  then show ?thesis by (simp add: q_def)
qed

lemma div64_E0: "(2048::nat) \<le> cp \<Longrightarrow> 32 \<le> cp div 64"
  by (simp add: less_mult_imp_div_less le_div_geq div_greater_zero_iff)

lemma div4096_F0: "(65536::nat) \<le> cp \<Longrightarrow> 16 \<le> cp div 4096"
  by (simp add: less_mult_imp_div_less le_div_geq div_greater_zero_iff)

lemma div4096_ED: "(cp::nat) div 4096 = 13 \<Longrightarrow> 53248 \<le> cp"
  by (simp add: less_mult_imp_div_less le_div_geq div_greater_zero_iff)

lemma div4096_ED_hi: "(cp::nat) div 4096 = 13 \<Longrightarrow> cp < 57344"
  by arith

lemma replaceInvalid_utf8Encode:
  assumes "scalar cp"
  shows "replaceInvalid (utf8Encode cp @ r) = utf8Encode cp @ replaceInvalid r"
proof -
  consider (one) "cp < 128" | (two) "128 \<le> cp" "cp < 2048"
    | (three) "2048 \<le> cp" "cp < 65536" | (four) "65536 \<le> cp" "cp < 1114112"
    using assms unfolding scalar_def by linarith
  then show ?thesis
  proof cases
    case one
    then have "utf8Encode cp = [char_of cp]" "byte (char_of cp) < 128"
      by (simp_all add: utf8Encode_def byte_char_of)
    then show ?thesis by simp
  next
    case two
    define a b where "a = char_of (192 + cp div 64)" and "b = char_of (128 + cp mod 64)"
    have enc: "utf8Encode cp = [a, b]"
      using two by (simp add: utf8Encode_def a_def b_def)
    have ba: "byte a = 192 + cp div 64"
      unfolding a_def using two by (intro byte_char_of) simp
    have bb: "byte b = 128 + cp mod 64"
      unfolding b_def by (intro byte_char_of) simp
    have len: "runeLen (a # b # r) = 2"
      using two by (intro runeLen2) (simp_all add: ba bb)
    have "128 \<le> byte a" by (simp add: ba)
    from replaceInvalid_rune [OF this len] show ?thesis
      by (simp add: enc)
  next
    case three
    define a b c where "a = char_of (224 + cp div 4096)"
      and "b = char_of (128 + cp div 64 mod 64)" and "c = char_of (128 + cp mod 64)"
    have enc: "utf8Encode cp = [a, b, c]"
      using three by (simp add: utf8Encode_def a_def b_def c_def)
    have ba: "byte a = 224 + cp div 4096"
      unfolding a_def using three by (intro byte_char_of) simp
    have bb: "byte b = 128 + cp div 64 mod 64"
      unfolding b_def by (intro byte_char_of) simp
    have bc: "byte c = 128 + cp mod 64"
      unfolding c_def by (intro byte_char_of) simp
    have lo: "160 \<le> byte b" if "byte a = 224"
    proof -
      from that have "cp < 4096" unfolding ba by simp
      then have "cp div 64 < 64" by simp
      moreover have "32 \<le> cp div 64" using three(1) by (rule div64_E0)
      ultimately show ?thesis unfolding bb by simp
    qed
    have hi: "byte b \<le> 159" if "byte a = 237"
    proof -
      from that have d: "cp div 4096 = 13" unfolding ba by simp
      have "53248 \<le> cp" using d by (rule div4096_ED)
      moreover have "cp < 55296"
        using assms div4096_ED_hi [OF d] unfolding scalar_def by linarith
      ultimately have "cp div 64 mod 64 < 32"
        by (rule mod64_D)
      then show ?thesis unfolding bb by simp
    qed
    have len: "runeLen (a # b # c # r) = 3"
      using three lo hi by (intro runeLen3) (simp_all add: ba bb bc)
    have "128 \<le> byte a" by (simp add: ba)
    from replaceInvalid_rune [OF this len] show ?thesis
      by (simp add: enc)
  next
    case four
    define a b c d where "a = char_of (240 + cp div 262144)"
      and "b = char_of (128 + cp div 4096 mod 64)"
      and "c = char_of (128 + cp div 64 mod 64)" and "d = char_of (128 + cp mod 64)"
    have enc: "utf8Encode cp = [a, b, c, d]"
      using four by (simp add: utf8Encode_def a_def b_def c_def d_def)
    have top: "cp div 262144 \<le> 4"
      using four by simp
    have ba: "byte a = 240 + cp div 262144"
      unfolding a_def using top by (intro byte_char_of) simp
    have bb: "byte b = 128 + cp div 4096 mod 64"
      unfolding b_def by (intro byte_char_of) simp
    have bc: "byte c = 128 + cp div 64 mod 64"
      unfolding c_def by (intro byte_char_of) simp
    have bd: "byte d = 128 + cp mod 64"
      unfolding d_def by (intro byte_char_of) simp
    have lo: "144 \<le> byte b" if "byte a = 240"
    proof -
      from that have "cp < 262144" unfolding ba by simp
      then have "cp div 4096 < 64" by simp
      moreover have "16 \<le> cp div 4096" using four(1) by (rule div4096_F0)
      ultimately show ?thesis unfolding bb by simp
    qed
    have hi: "byte b \<le> 143" if "byte a = 244"
    proof -
      from that have "cp div 262144 = 4" unfolding ba by simp
      then have "1048576 \<le> cp" by simp
      then have "cp div 4096 mod 64 < 16"
        using four(2) by (rule mod64_top)
      then show ?thesis unfolding bb by simp
    qed
    have len: "runeLen (a # b # c # d # r) = 4"
      using top lo hi by (intro runeLen4) (simp_all add: ba bb bc bd)
    have "128 \<le> byte a" by (simp add: ba)
    from replaceInvalid_rune [OF this len] show ?thesis
      by (simp add: enc)
  qed
qed

lemma replaceInvalid_wellformed:
  "list_all scalar cps \<Longrightarrow>
   replaceInvalid (concat (map utf8Encode cps)) = concat (map utf8Encode cps)"
  by (induction cps) (simp_all add: replaceInvalid_utf8Encode)

lemma replaceInvalid_ascii: "isASCII s \<Longrightarrow> replaceInvalid s = s"
  by (induction s) (simp_all add: isASCII_def)


section \<open>Formatting\<close>

lemma doPrint_later: "doPrint (Suc n) b a = doPrint (Suc m) b a"
  by (induction a arbitrary: n m b) auto

lemma doPrint_after_string: "doPrint (Suc n) True a = doPrint 0 False a"
proof (cases a)
  case Nil
  then show ?thesis by simp
next
  case (Cons arg rest)
  then show ?thesis using doPrint_later [of "Suc n" "isString arg" rest 0] by simp
qed

lemma Sprint_prefix: "Sprint (Logger_prefix l v) = severity l @ '': '' @ Sprint v"
  using doPrint_after_string [of 1 v] by (simp add: Sprint_def Logger_prefix_def)

lemma argNumber_no_bracket: "CHR ''['' \<notin> set f \<Longrightarrow> argNumber f n = (NoIndex, f)"
  by (cases f) (auto simp: argNumber_def)

lemma doPrintf_shift:
  "CHR ''['' \<notin> set f \<Longrightarrow> doPrintf f (x # y # v) (n + 2) r = doPrintf f v n r"
proof (induction f arbitrary: n rule: measure_induct_rule [where f = length])
  case (less f)
  show ?case
  proof (cases f)
    case Nil
    then show ?thesis by simp
  next
    case (Cons c format)
    note f = Cons
    show ?thesis
    proof (cases "c = CHR ''%''")
      case False
      have "doPrintf format (x # y # v) (n + 2) r = doPrintf format v n r"
        using less.prems f by (intro less.IH) auto
      with False f show ?thesis by simp
    next
      case True
      note pc = True
      show ?thesis
      proof (cases format)
        case Nil
        with pc f show ?thesis by (simp add: argNumber_def)
      next
        case (Cons verb rest)
        have nb: "CHR ''['' \<notin> set (verb # rest)"
          using less.prems f Cons by simp
        have an: "argNumber (verb # rest) m = (NoIndex, verb # rest)" for m
          using nb by (rule argNumber_no_bracket)
        have ih: "doPrintf rest (x # y # v) (k + 2) r = doPrintf rest v k r" for k
          using nb f Cons by (intro less.IH) auto
        have ih1: "doPrintf rest (x # y # v) (Suc (Suc (Suc n))) r = doPrintf rest v (Suc n) r"
          using ih [of "Suc n"] by simp
        show ?thesis
          using ih [of n] ih1 by (simp add: f Cons pc an)
      qed
    qed
  qed
qed

lemma doPrintf_prefix:
  assumes "CHR ''['' \<notin> set f"
  shows "doPrintf (''%s%s'' @ f) (StringV a # StringV b # v) 0 False
    = map_option (\<lambda>text. a @ b @ text) (doPrintf f v 0 False)"
  using doPrintf_shift [OF assms, of "StringV a" "StringV b" v 0 False]
  by (simp add: argNumber_def isVerb_def option.map_comp comp_def)

lemma Sprintf_prefix:
  assumes "CHR ''['' \<notin> set format" and "doPrintf format v 0 False \<noteq> None"
  shows "Sprintf other (''%s%s'' @ format) (Logger_prefix l v)
    = severity l @ '': '' @ Sprintf other format v"
  using assms(2) doPrintf_prefix [OF assms(1), of "severity l" "'': ''" v]
  by (auto simp: Sprintf_def Logger_prefix_def)

lemma decimal_small: "n < 10 \<Longrightarrow> decimal n = [char_of (48 + n)]"
  by (subst decimal.simps) simp

lemma decimal_large:
  "\<not> n < 10 \<Longrightarrow> decimal n = decimal (n div 10) @ [char_of (48 + n mod 10)]"
  by (subst decimal.simps) simp


section \<open>Emission\<close>

lemma New_empty: "New mapUpper [] = \<lparr>severity = ''DEFAULT''\<rparr>"
  by (simp add: New_def defaultLogger_def DEFAULT_def)

lemma Marshal_bytes:
  \<open>Marshal rel m = ''{"severity":'' @ jsonString rel (Severity_json m) @ '',"message":''
     @ jsonString rel (Message_json m) @ ''}''\<close>
  by (simp add: Marshal_def jsonString_def htmlSafe_def byte_def)

lemma Logger_output_bytes:
  \<open>Logger_output rel l s out = out @ ''{"severity":'' @ jsonString rel (severity l) @ '',"message":''
     @ jsonString rel (TrimSpace s) @ ''}''\<close>
  by (simp add: Logger_output_def fmt_Print_def Sprint_def Marshal_bytes)

lemma jsonString_printable: "x \<in> set (jsonString rel s) \<Longrightarrow> 32 \<le> byte x"
  using jsonString_plain [of rel s] by (auto simp: list_all_iff plainByte_def)

lemma Logger_output_printable:
  "list_all (\<lambda>c. 32 \<le> byte c) (drop (length out) (Logger_output rel l s out))"
proof -
  have "32 \<le> byte x" if "x \<in> set (drop (length out) (Logger_output rel l s out))" for x
  proof -
    from that have "x \<in> set ''{\"severity\":,\"message\":}'' \<or> x \<in> set (jsonString rel (severity l))
        \<or> x \<in> set (jsonString rel (TrimSpace s))"
      unfolding Logger_output_bytes by auto
    then show ?thesis
      using jsonString_printable by (auto simp: byte_def)
  qed
  then show ?thesis by (simp add: list_all_iff)
qed

lemma Logger_output_plain:
  "list_all plainByte (drop (length out) (Logger_output rel l s out))"
proof -
  have "list_all plainByte ''{\"severity\":,\"message\":}''"
    by (simp add: plainByte_def byte_def)
  then show ?thesis
    unfolding Logger_output_bytes
    using jsonString_plain [of rel "severity l"] jsonString_plain [of rel "TrimSpace s"]
    by simp
qed

lemma jsonString_safe: \<open>list_all htmlSafe s \<Longrightarrow> jsonString rel s = ''"'' @ s @ ''"''\<close>
  by (simp add: jsonString_def appendString_safe)

lemma TrimSpace_Hello: "TrimSpace ''Hello World'' = ''Hello World''"
  by code_simp

lemma jsonString_Hello: \<open>jsonString rel ''Hello World'' = ''"Hello World"''\<close>
  by code_simp

lemma jsonString_DEFAULT: \<open>jsonString rel ''DEFAULT'' = ''"DEFAULT"''\<close>
  by code_simp

text \<open>
  C3: for every Logger and every argument list, \<open>Print\<close> appends to standard output
  exactly the object with the key \<open>severity\<close> first and the key \<open>message\<close> second, with
  no white space between the tokens and nothing after the closing brace, and returns.
  The message is the \<open>Sprint\<close> of the arguments, trimmed and then escaped as a JSON
  string. Trimmed: the text is the \<open>Sprint\<close> text without a white-space-only head and a
  white-space-only tail, it neither starts nor ends with a white-space code point, and
  what is between is kept as it is. Escaped: the message token, read as a JSON string
  (RFC 8259), is the trimmed text again, for every trimmed text that is well-formed
  UTF-8 (the encoding of a list of scalar values); in general it is the trimmed text
  with U+FFFD for each byte that starts no well-formed sequence. A text of plain
  characters stands between the quotes unchanged. The same holds of the severity. No
  byte written is a control character or one of \<open><\<close>, \<open>>\<close> and \<open>&\<close>, so the output is
  a single line. \<open>New().Print("Hello World")\<close> writes the line of the example.
\<close>

theorem Print_emits:
  \<open>Print rel l v out =
     (out @ ''{"severity":'' @ jsonString rel (severity l) @ '',"message":''
        @ jsonString rel (TrimSpace (Sprint v)) @ ''}'', Returns)
   \<and> list_all (\<lambda>c. 32 \<le> byte c) (drop (length out) (fst (Print rel l v out)))
   \<and> list_all plainByte (drop (length out) (fst (Print rel l v out)))
   \<and> (\<exists>pre post. Sprint v = pre @ TrimSpace (Sprint v) @ post \<and> onlySpace pre \<and> onlySpace post)
   \<and> headRune spaceRunes (TrimSpace (Sprint v)) = None
   \<and> headRune (map rev spaceRunes) (rev (TrimSpace (Sprint v))) = None
   \<and> jsonUnquote (jsonString rel (TrimSpace (Sprint v)))
       = Some (replaceInvalid (TrimSpace (Sprint v)))
   \<and> (list_all scalar cps \<and> TrimSpace (Sprint v) = concat (map utf8Encode cps) \<longrightarrow>
        jsonUnquote (jsonString rel (TrimSpace (Sprint v))) = Some (TrimSpace (Sprint v)))
   \<and> (list_all htmlSafe (TrimSpace (Sprint v)) \<longrightarrow>
        jsonString rel (TrimSpace (Sprint v)) = ''"'' @ TrimSpace (Sprint v) @ ''"'')
   \<and> jsonUnquote (jsonString rel (severity l)) = Some (replaceInvalid (severity l))
   \<and> (list_all scalar sps \<and> severity l = concat (map utf8Encode sps) \<longrightarrow>
        jsonUnquote (jsonString rel (severity l)) = Some (severity l))
   \<and> (list_all htmlSafe (severity l) \<longrightarrow> jsonString rel (severity l) = ''"'' @ severity l @ ''"'')
   \<and> Print rel (New mapUpper []) [StringV ''Hello World''] [] =
       (''{"severity":"DEFAULT","message":"Hello World"}'', Returns)\<close>
proof -
  have bytes: \<open>Print rel l v out =
     (out @ ''{"severity":'' @ jsonString rel (severity l) @ '',"message":''
        @ jsonString rel (TrimSpace (Sprint v)) @ ''}'', Returns)\<close> for l v out
    by (simp only: Print_def Logger_output_bytes)
  have line: "list_all (\<lambda>c. 32 \<le> byte c) (drop (length out) (fst (Print rel l v out)))"
    using Logger_output_printable [of out rel l "Sprint v"] by (simp add: Print_def)
  have plain: "list_all plainByte (drop (length out) (fst (Print rel l v out)))"
    using Logger_output_plain [of out rel l "Sprint v"] by (simp add: Print_def)
  have hello: \<open>Print rel (New mapUpper []) [StringV ''Hello World''] [] =
       (''{"severity":"DEFAULT","message":"Hello World"}'', Returns)\<close>
    unfolding bytes New_empty
    by (simp add: Sprint_def TrimSpace_Hello jsonString_Hello jsonString_DEFAULT)
  have read: "jsonUnquote (jsonString rel s) = Some s"
    if "list_all scalar xs \<and> s = concat (map utf8Encode xs)" for s xs
    using that jsonUnquote_jsonString [of rel s] replaceInvalid_wellformed [of xs] by simp
  show ?thesis
    using bytes [of l v out] line plain hello TrimSpace_split [of "Sprint v"]
      TrimSpace_no_leading [of "Sprint v"] TrimSpace_no_trailing [of "Sprint v"]
      jsonUnquote_jsonString [of rel "TrimSpace (Sprint v)"]
      jsonUnquote_jsonString [of rel "severity l"]
      read [of cps "TrimSpace (Sprint v)"] read [of sps "severity l"]
      jsonString_safe [of "TrimSpace (Sprint v)" rel] jsonString_safe [of "severity l" rel]
    by blast
qed

lemma Sprint_sample: "Sprint [StringV ''  a'', IntV 1, IntV 2, StringV ''b  ''] = ''  a1 2b  ''"
  by code_simp

lemma TrimSpace_sample: "TrimSpace ''  a1 2b  '' = ''a1 2b''"
  by code_simp

lemma New_INFO: "New noCaseTables [''INFO''] = \<lparr>severity = ''INFO''\<rparr>"
  by (simp add: New_def isValid_set set_severityAll upper_defs)

lemma Sprint_sample2:
  "Sprint [StringV [CHR 0x20, CHR ''a'', CHR ''<'', CHR ''b''], IntV 1, IntV 2,
       StringV [CHR 0x22, CHR 0xC3, CHR 0xA9, CHR 0x5C, CHR 0x0A, CHR 0x08, CHR ''c'', CHR 0x09]]
     = [CHR 0x20, CHR ''a'', CHR ''<'', CHR ''b'', CHR ''1'', CHR 0x20, CHR ''2'',
        CHR 0x22, CHR 0xC3, CHR 0xA9, CHR 0x5C, CHR 0x0A, CHR 0x08, CHR ''c'', CHR 0x09]"
  by code_simp

lemma TrimSpace_sample2:
  "TrimSpace [CHR 0x20, CHR ''a'', CHR ''<'', CHR ''b'', CHR ''1'', CHR 0x20, CHR ''2'',
        CHR 0x22, CHR 0xC3, CHR 0xA9, CHR 0x5C, CHR 0x0A, CHR 0x08, CHR ''c'', CHR 0x09]
     = [CHR ''a'', CHR ''<'', CHR ''b'', CHR ''1'', CHR 0x20, CHR ''2'',
        CHR 0x22, CHR 0xC3, CHR 0xA9, CHR 0x5C, CHR 0x0A, CHR 0x08, CHR ''c'']"
  by code_simp

lemma jsonString_sample2:
  "jsonString goRelease [CHR ''a'', CHR ''<'', CHR ''b'', CHR ''1'', CHR 0x20, CHR ''2'',
        CHR 0x22, CHR 0xC3, CHR 0xA9, CHR 0x5C, CHR 0x0A, CHR 0x08, CHR ''c'']
     = [CHR 0x22, CHR ''a'', CHR 0x5C, CHR ''u'', CHR ''0'', CHR ''0'', CHR ''3'', CHR ''c'',
        CHR ''b'', CHR ''1'', CHR 0x20, CHR ''2'', CHR 0x5C, CHR 0x22, CHR 0xC3, CHR 0xA9,
        CHR 0x5C, CHR 0x5C, CHR 0x5C, CHR ''n'', CHR 0x5C, CHR ''b'', CHR ''c'', CHR 0x22]"
  by code_simp

lemma utf8Encode_sample:
  "concat (map utf8Encode [97, 60, 98, 49, 32, 50, 34, 233, 92, 10, 8, 99])
     = [CHR ''a'', CHR ''<'', CHR ''b'', CHR ''1'', CHR 0x20, CHR ''2'',
        CHR 0x22, CHR 0xC3, CHR 0xA9, CHR 0x5C, CHR 0x0A, CHR 0x08, CHR ''c'']"
  by (simp add: utf8Encode_def char_of_eq_iff)

text \<open>
  Two instances, both with the severity \<open>INFO\<close>. The first: four operands whose text
  has white space at both ends, \<open><\<close>, a quote, a two-byte character, a backslash, a
  newline, a backspace and a tab; the message token has the escapes for them, the
  two-byte character as it is, and reads back as the trimmed text. The second: a text
  of plain characters after earlier output \<open>x\<close>.
\<close>

theorem Print_emits_witness:
  \<open>list_all scalar [97, 60, 98, 49, 32, 50, 34, 233, 92, 10, 8, 99]
   \<and> TrimSpace (Sprint
         [StringV [CHR 0x20, CHR ''a'', CHR ''<'', CHR ''b''], IntV 1, IntV 2,
          StringV [CHR 0x22, CHR 0xC3, CHR 0xA9, CHR 0x5C, CHR 0x0A, CHR 0x08, CHR ''c'', CHR 0x09]])
       = concat (map utf8Encode [97, 60, 98, 49, 32, 50, 34, 233, 92, 10, 8, 99])
   \<and> list_all scalar [73, 78, 70, 79]
   \<and> severity (New noCaseTables [''INFO'']) = concat (map utf8Encode [73, 78, 70, 79])
   \<and> jsonUnquote (jsonString goRelease (severity (New noCaseTables [''INFO''])))
       = Some ''INFO''
   \<and> list_all htmlSafe (severity (New noCaseTables [''INFO'']))
   \<and> Print goRelease (New noCaseTables [''INFO''])
         [StringV [CHR 0x20, CHR ''a'', CHR ''<'', CHR ''b''], IntV 1, IntV 2,
          StringV [CHR 0x22, CHR 0xC3, CHR 0xA9, CHR 0x5C, CHR 0x0A, CHR 0x08, CHR ''c'', CHR 0x09]] []
       = (''{"severity":"INFO","message":''
          @ [CHR 0x22, CHR ''a'', CHR 0x5C, CHR ''u'', CHR ''0'', CHR ''0'', CHR ''3'', CHR ''c'',
             CHR ''b'', CHR ''1'', CHR 0x20, CHR ''2'', CHR 0x5C, CHR 0x22, CHR 0xC3, CHR 0xA9,
             CHR 0x5C, CHR 0x5C, CHR 0x5C, CHR ''n'', CHR 0x5C, CHR ''b'', CHR ''c'', CHR 0x22]
          @ ''}'', Returns)
   \<and> jsonUnquote
         [CHR 0x22, CHR ''a'', CHR 0x5C, CHR ''u'', CHR ''0'', CHR ''0'', CHR ''3'', CHR ''c'',
          CHR ''b'', CHR ''1'', CHR 0x20, CHR ''2'', CHR 0x5C, CHR 0x22, CHR 0xC3, CHR 0xA9,
          CHR 0x5C, CHR 0x5C, CHR 0x5C, CHR ''n'', CHR 0x5C, CHR ''b'', CHR ''c'', CHR 0x22]
       = Some [CHR ''a'', CHR ''<'', CHR ''b'', CHR ''1'', CHR 0x20, CHR ''2'',
          CHR 0x22, CHR 0xC3, CHR 0xA9, CHR 0x5C, CHR 0x0A, CHR 0x08, CHR ''c'']
   \<and> list_all htmlSafe (TrimSpace (Sprint [StringV ''  a'', IntV 1, IntV 2, StringV ''b  '']))
   \<and> Print goRelease (New noCaseTables [''INFO''])
         [StringV ''  a'', IntV 1, IntV 2, StringV ''b  ''] ''x''
       = (''x{"severity":"INFO","message":"a1 2b"}'', Returns)\<close>
proof -
  let ?l = "New noCaseTables [''INFO'']"
  let ?v = "[StringV [CHR 0x20, CHR ''a'', CHR ''<'', CHR ''b''], IntV 1, IntV 2,
          StringV [CHR 0x22, CHR 0xC3, CHR 0xA9, CHR 0x5C, CHR 0x0A, CHR 0x08, CHR ''c'', CHR 0x09]]"
  let ?w = "[StringV ''  a'', IntV 1, IntV 2, StringV ''b  '']"
  let ?cps = "[97, 60, 98, 49, 32, 50, 34, 233, 92, 10, 8, 99] :: nat list"
  let ?m = "[CHR ''a'', CHR ''<'', CHR ''b'', CHR ''1'', CHR 0x20, CHR ''2'',
          CHR 0x22, CHR 0xC3, CHR 0xA9, CHR 0x5C, CHR 0x0A, CHR 0x08, CHR ''c'']"
  let ?sps = "[73, 78, 70, 79] :: nat list"
  have sc: "list_all scalar ?cps"
    by (simp add: scalar_def)
  have ssc: "list_all scalar ?sps"
    by (simp add: scalar_def)
  have "concat (map utf8Encode ?sps) = ''INFO''"
    by (simp add: utf8Encode_def char_of_eq_iff)
  then have sv: "severity ?l = concat (map utf8Encode ?sps)"
    by (simp add: New_INFO)
  have safe: "list_all htmlSafe (severity ?l)"
    by (simp add: New_INFO htmlSafe_def byte_def)
  have m: "TrimSpace (Sprint ?v) = ?m"
    by (simp only: Sprint_sample2 TrimSpace_sample2)
  have msg: "TrimSpace (Sprint ?v) = concat (map utf8Encode ?cps)"
    by (simp only: m utf8Encode_sample)
  have plain: "list_all htmlSafe (TrimSpace (Sprint ?w))"
    by (simp add: Sprint_sample TrimSpace_sample htmlSafe_def byte_def)
  note one = Print_emits [where rel = goRelease and l = ?l and v = ?v and out = "[]"
      and cps = ?cps and sps = ?sps and mapUpper = noCaseTables]
  note two = Print_emits [where rel = goRelease and l = ?l and v = ?w and out = "''x''"
      and cps = "[]" and sps = ?sps and mapUpper = noCaseTables]
  have rs: "jsonUnquote (jsonString goRelease (severity ?l)) = Some ''INFO''"
  proof -
    have "jsonUnquote (jsonString goRelease (severity ?l)) = Some (severity ?l)"
      using one ssc sv by blast
    then show ?thesis by (simp add: New_INFO)
  qed
  have sev: \<open>jsonString goRelease (severity ?l) = ''"'' @ severity ?l @ ''"''\<close>
    using one safe by blast
  have p1: \<open>Print goRelease ?l ?v [] =
     ([] @ ''{"severity":'' @ jsonString goRelease (severity ?l) @ '',"message":''
        @ jsonString goRelease (TrimSpace (Sprint ?v)) @ ''}'', Returns)\<close>
    using one by blast
  have r1: "jsonUnquote (jsonString goRelease (TrimSpace (Sprint ?v))) = Some (TrimSpace (Sprint ?v))"
    using one sc msg by blast
  have p2: \<open>Print goRelease ?l ?w ''x'' =
     (''x'' @ ''{"severity":'' @ jsonString goRelease (severity ?l) @ '',"message":''
        @ jsonString goRelease (TrimSpace (Sprint ?w)) @ ''}'', Returns)\<close>
    using two by blast
  have q2: \<open>jsonString goRelease (TrimSpace (Sprint ?w)) = ''"'' @ TrimSpace (Sprint ?w) @ ''"''\<close>
    using two plain by blast
  have c3: \<open>Print goRelease ?l ?v []
       = (''{"severity":"INFO","message":''
          @ [CHR 0x22, CHR ''a'', CHR 0x5C, CHR ''u'', CHR ''0'', CHR ''0'', CHR ''3'', CHR ''c'',
             CHR ''b'', CHR ''1'', CHR 0x20, CHR ''2'', CHR 0x5C, CHR 0x22, CHR 0xC3, CHR 0xA9,
             CHR 0x5C, CHR 0x5C, CHR 0x5C, CHR ''n'', CHR 0x5C, CHR ''b'', CHR ''c'', CHR 0x22]
          @ ''}'', Returns)\<close>
    unfolding p1 sev m jsonString_sample2 by (simp add: New_INFO)
  have c4: "jsonUnquote
         [CHR 0x22, CHR ''a'', CHR 0x5C, CHR ''u'', CHR ''0'', CHR ''0'', CHR ''3'', CHR ''c'',
          CHR ''b'', CHR ''1'', CHR 0x20, CHR ''2'', CHR 0x5C, CHR 0x22, CHR 0xC3, CHR 0xA9,
          CHR 0x5C, CHR 0x5C, CHR 0x5C, CHR ''n'', CHR 0x5C, CHR ''b'', CHR ''c'', CHR 0x22]
       = Some ?m"
    using r1 unfolding m jsonString_sample2 .
  have c6: \<open>Print goRelease ?l ?w ''x'' = (''x{"severity":"INFO","message":"a1 2b"}'', Returns)\<close>
    unfolding p2 sev q2 by (simp add: New_INFO Sprint_sample TrimSpace_sample)
  show ?thesis
    using sc msg ssc sv rs safe c3 c4 plain c6 by (intro conjI)
qed

text \<open>
  A byte that starts no well-formed sequence: \<open>New().Print("\xff")\<close> writes the
  replacement of the release as the message, at \<open>goRelease\<close> the three bytes of U+FFFD.
\<close>

lemma Example_invalid_utf8:
  \<open>Print rel (New noCaseTables []) [StringV [CHR 0xFF]] []
     = (''{"severity":"DEFAULT","message":"'' @ replacement rel @ ''"}'', Returns)\<close>
  \<open>Print goRelease (New noCaseTables []) [StringV [CHR 0xFF]] []
     = (''{"severity":"DEFAULT","message":"'' @ [CHR 0xEF, CHR 0xBF, CHR 0xBD] @ ''"}'', Returns)\<close>
proof -
  have t: "TrimSpace (Sprint [StringV [CHR 0xFF]]) = [CHR 0xFF]"
    by code_simp
  have "jsonString rel [CHR 0xFF] = [CHR 0x22] @ (replacement rel @ []) @ [CHR 0x22]" for rel
    by code_simp
  then have j: "jsonString rel [CHR 0xFF] = [CHR 0x22] @ replacement rel @ [CHR 0x22]" for rel
    by simp
  show \<open>Print rel (New noCaseTables []) [StringV [CHR 0xFF]] []
     = (''{"severity":"DEFAULT","message":"'' @ replacement rel @ ''"}'', Returns)\<close> for rel
    unfolding Print_def Logger_output_bytes New_empty t j
    by (simp add: jsonString_DEFAULT)
  then show \<open>Print goRelease (New noCaseTables []) [StringV [CHR 0xFF]] []
     = (''{"severity":"DEFAULT","message":"'' @ [CHR 0xEF, CHR 0xBF, CHR 0xBD] @ ''"}'', Returns)\<close>
    by (simp add: replacement_def goRelease_def)
qed

text \<open>
  C6: \<open>Fatal\<close>, \<open>Fatalf\<close>, \<open>PrefixFatal\<close> and \<open>PrefixFatalf\<close> leave standard output as
  \<open>Print\<close>, \<open>Printf\<close>, \<open>PrefixPrint\<close> and \<open>PrefixPrintf\<close> do on the same arguments, and
  end the process with exit status 1 instead of returning; the other four return.
\<close>

theorem Fatal_variants:
  "Fatal rel l v out = (fst (Print rel l v out), Exits 1)
   \<and> Fatalf rel other l format v out = (fst (Printf rel other l format v out), Exits 1)
   \<and> PrefixFatal rel l v out = (fst (PrefixPrint rel l v out), Exits 1)
   \<and> PrefixFatalf rel other l format v out = (fst (PrefixPrintf rel other l format v out), Exits 1)
   \<and> snd (Print rel l v out) = Returns
   \<and> snd (Printf rel other l format v out) = Returns
   \<and> snd (PrefixPrint rel l v out) = Returns
   \<and> snd (PrefixPrintf rel other l format v out) = Returns"
  by (simp add: Fatal_def Fatalf_def PrefixFatal_def PrefixFatalf_def Print_def Printf_def
      PrefixPrint_def PrefixPrintf_def)

text \<open>An instance: \<open>New().Fatal("Hello World")\<close>.\<close>

theorem Fatal_variants_witness:
  \<open>Fatal goRelease (New noCaseTables []) [StringV ''Hello World''] [] =
     (''{"severity":"DEFAULT","message":"Hello World"}'', Exits 1)\<close>
proof -
  have \<open>Print goRelease (New noCaseTables []) [StringV ''Hello World''] [] =
       (''{"severity":"DEFAULT","message":"Hello World"}'', Returns)\<close>
    unfolding Print_def Logger_output_bytes New_empty
    by (simp add: Sprint_def TrimSpace_Hello jsonString_Hello jsonString_DEFAULT)
  then show ?thesis
    using Fatal_variants [where rel = goRelease and l = "New noCaseTables []"
        and v = "[StringV ''Hello World'']" and out = "[]"]
    by simp
qed

lemma written_output:
  "drop (length out) (Logger_output rel l s out) =
     Marshal rel \<lparr>Severity_json = severity l, Message_json = TrimSpace s\<rparr>"
  by (simp add: Logger_output_def fmt_Print_def Sprint_def)

text \<open>
  C8: two Loggers that hold the same severity write the same bytes for the same input,
  whatever was written before: the bytes after the earlier output are equal, for
  \<open>output\<close> and for the four entry points that return.
\<close>

theorem output_deterministic:
  assumes "severity l1 = severity l2"
  shows "drop (length out1) (Logger_output rel l1 s out1) = drop (length out2) (Logger_output rel l2 s out2)
   \<and> drop (length out1) (fst (Print rel l1 v out1)) = drop (length out2) (fst (Print rel l2 v out2))
   \<and> drop (length out1) (fst (Printf rel other l1 format v out1))
       = drop (length out2) (fst (Printf rel other l2 format v out2))
   \<and> drop (length out1) (fst (PrefixPrint rel l1 v out1))
       = drop (length out2) (fst (PrefixPrint rel l2 v out2))
   \<and> drop (length out1) (fst (PrefixPrintf rel other l1 format v out1))
       = drop (length out2) (fst (PrefixPrintf rel other l2 format v out2))"
  using assms
  by (simp add: Print_def Printf_def PrefixPrint_def PrefixPrintf_def written_output
      Logger_prefix_def)

lemma SetSeverity_default:
  "SetSeverity noCaseTables (New noCaseTables [''INFO'']) ''default'' = \<lparr>severity = ''DEFAULT''\<rparr>"
  by (simp add: SetSeverity_def New_INFO isValid_set set_severityAll upper_defs)

text \<open>
  An instance: a Logger from \<open>New()\<close> and one from \<open>New("INFO")\<close> set to \<open>default\<close>,
  writing after different earlier output.
\<close>

theorem output_deterministic_witness:
  "severity (New noCaseTables []) = severity (SetSeverity noCaseTables (New noCaseTables [''INFO'']) ''default'')
   \<and> drop (length ([]::string)) (fst (Print goRelease (New noCaseTables []) [StringV ''Hello World''] []))
     = drop (length ''earlier'')
         (fst (Print goRelease (SetSeverity noCaseTables (New noCaseTables [''INFO'']) ''default'')
            [StringV ''Hello World''] ''earlier''))"
proof -
  have same: "severity (New noCaseTables [])
      = severity (SetSeverity noCaseTables (New noCaseTables [''INFO'']) ''default'')"
    by (simp add: New_empty SetSeverity_default)
  from output_deterministic [OF same, where rel = goRelease and ?out1.0 = "[]"
      and ?out2.0 = "''earlier''" and v = "[StringV ''Hello World'']"]
  have "drop (length ([]::string)) (fst (Print goRelease (New noCaseTables []) [StringV ''Hello World''] []))
     = drop (length ''earlier'')
         (fst (Print goRelease (SetSeverity noCaseTables (New noCaseTables [''INFO'']) ''default'')
            [StringV ''Hello World''] ''earlier''))"
    by blast
  with same show ?thesis by blast
qed

lemma Sprintf_modelled: "doPrintf format a 0 False = Some text \<Longrightarrow> Sprintf other format a = text"
  by (simp add: Sprintf_def)

lemma doPrintf_index_plain: "doPrintf ''%[1]s'' [StringV ''x''] 0 False = Some ''x''"
  by code_simp

lemma doPrintf_index_prefixed:
  "doPrintf (''%s%s'' @ ''%[1]s'') (Logger_prefix \<lparr>severity = ''DEFAULT''\<rparr> [StringV ''x'']) 0 False
     = Some ''DEFAULT: DEFAULT''"
  by code_simp

lemma TrimSpace_DD: "TrimSpace ''DEFAULT: DEFAULT'' = ''DEFAULT: DEFAULT''"
  by code_simp

lemma jsonString_DD: \<open>jsonString rel ''DEFAULT: DEFAULT'' = ''"DEFAULT: DEFAULT"''\<close>
  by code_simp

lemma TrimSpace_x: "TrimSpace ''x'' = ''x''"
  by code_simp

lemma jsonString_x: \<open>jsonString rel ''x'' = ''"x"''\<close>
  by code_simp

text \<open>
  C5: the prefix variants with a format put \<open>%s%s\<close> before the caller's format and the
  severity and \<open>": "\<close> before the caller's operands, so an explicit argument index in
  the caller's format counts the two added operands. With the format \<open>%[1]s\<close> and the
  operand \<open>x\<close>, \<open>Printf\<close> writes the message \<open>x\<close> and \<open>PrefixPrintf\<close> writes
  \<open>DEFAULT: DEFAULT\<close>, not \<open>DEFAULT: x\<close>.
\<close>

theorem PrefixPrintf_argument_index:
  \<open>Printf rel noOtherVerbs (New noCaseTables []) ''%[1]s'' [StringV ''x''] [] =
     (''{"severity":"DEFAULT","message":"x"}'', Returns)
   \<and> PrefixPrintf rel noOtherVerbs (New noCaseTables []) ''%[1]s'' [StringV ''x''] [] =
     (''{"severity":"DEFAULT","message":"DEFAULT: DEFAULT"}'', Returns)\<close>
proof -
  have plain: "Sprintf noOtherVerbs ''%[1]s'' [StringV ''x''] = ''x''"
    by (rule Sprintf_modelled) (rule doPrintf_index_plain)
  have prefixed: "Sprintf noOtherVerbs (''%s%s'' @ ''%[1]s'')
      (Logger_prefix \<lparr>severity = ''DEFAULT''\<rparr> [StringV ''x'']) = ''DEFAULT: DEFAULT''"
    by (rule Sprintf_modelled) (rule doPrintf_index_prefixed)
  show ?thesis
    unfolding Printf_def PrefixPrintf_def Logger_output_bytes New_empty plain prefixed
    by (simp add: TrimSpace_DD jsonString_DD TrimSpace_x jsonString_x jsonString_DEFAULT)
qed


lemma Logger_output_Marshal:
  "Logger_output rel l s out = out @ Marshal rel \<lparr>Severity_json = severity l, Message_json = TrimSpace s\<rparr>"
  by (simp add: Logger_output_def fmt_Print_def Sprint_def)

lemma Logger_output_prefixed:
  assumes "headRune spaceRunes (severity l) = None" and "onlySpace t"
  shows "Logger_output rel l (severity l @ '': '' @ t) out
    = out @ Marshal rel \<lparr>Severity_json = severity l, Message_json = severity l @ '':''\<rparr>"
  by (simp only: Logger_output_Marshal TrimSpace_prefixed [OF assms])

lemma doPrintf_index_blank: "doPrintf ''%[1]s'' [StringV '' ''] 0 False = Some '' ''"
  by code_simp

lemma doPrintf_index_blank_prefixed:
  "doPrintf (''%s%s'' @ ''%[1]s'') (Logger_prefix \<lparr>severity = ''DEFAULT''\<rparr> [StringV '' '']) 0 False
     = Some ''DEFAULT: DEFAULT''"
  by code_simp

lemma onlySpace_blank: "onlySpace '' ''"
  by code_simp

text \<open>
  C10: \<open>output\<close> trims after the prefix is attached, so a prefix call whose formatted
  text is white space only should write the message "severity, colon". With the format
  \<open>%[1]s\<close> and an operand of one space, the formatted text is one space, yet
  \<open>New().PrefixPrintf\<close> writes the message \<open>DEFAULT: DEFAULT\<close>, not \<open>DEFAULT:\<close>: the
  explicit argument index counts the two operands that the prefix adds (the defect of
  C5).
\<close>

theorem PrefixPrintf_blank_argument_index:
  \<open>Sprintf noOtherVerbs ''%[1]s'' [StringV '' ''] = '' ''
   \<and> onlySpace (Sprintf noOtherVerbs ''%[1]s'' [StringV '' ''])
   \<and> severity (New noCaseTables []) = ''DEFAULT''
   \<and> PrefixPrintf rel noOtherVerbs (New noCaseTables []) ''%[1]s'' [StringV '' ''] [] =
     (''{"severity":"DEFAULT","message":"DEFAULT: DEFAULT"}'', Returns)
   \<and> PrefixPrintf rel noOtherVerbs (New noCaseTables []) ''%[1]s'' [StringV '' ''] [] \<noteq>
     (''{"severity":"DEFAULT","message":"DEFAULT:"}'', Returns)\<close>
proof -
  have plain: "Sprintf noOtherVerbs ''%[1]s'' [StringV '' ''] = '' ''"
    by (rule Sprintf_modelled) (rule doPrintf_index_blank)
  have prefixed: "Sprintf noOtherVerbs (''%s%s'' @ ''%[1]s'')
      (Logger_prefix \<lparr>severity = ''DEFAULT''\<rparr> [StringV '' '']) = ''DEFAULT: DEFAULT''"
    by (rule Sprintf_modelled) (rule doPrintf_index_blank_prefixed)
  have written: \<open>PrefixPrintf rel noOtherVerbs (New noCaseTables []) ''%[1]s'' [StringV '' ''] [] =
     (''{"severity":"DEFAULT","message":"DEFAULT: DEFAULT"}'', Returns)\<close>
    unfolding PrefixPrintf_def Logger_output_bytes New_empty prefixed
    by (simp add: TrimSpace_DD jsonString_DD jsonString_DEFAULT)
  show ?thesis
    unfolding written using plain onlySpace_blank by (simp add: New_empty)
qed

text \<open>
  What holds of the trimming: for a Logger whose severity does not start with white
  space (as every severity accepted by \<open>New\<close> or \<open>SetSeverity\<close> from ASCII input, see
  \<open>accepted_no_leading_space\<close> below, and the empty one), a prefix call writes the
  message "severity, colon" whenever the text after the prefix is empty or white space
  only. For \<open>PrefixPrint\<close> and \<open>PrefixFatal\<close> that text is the \<open>Sprint\<close> of the operands,
  for every operand list; for \<open>PrefixPrintf\<close> and \<open>PrefixFatalf\<close> it is the \<open>Sprintf\<close> of
  the caller's format and operands for every modelled format without an explicit
  argument index.
\<close>

lemma Prefix_blank_text:
  assumes "headRune spaceRunes (severity l) = None"
  shows "(onlySpace (Sprint v) \<longrightarrow>
            PrefixPrint rel l v out =
              (out @ Marshal rel \<lparr>Severity_json = severity l, Message_json = severity l @ '':''\<rparr>, Returns)
          \<and> PrefixFatal rel l v out =
              (out @ Marshal rel \<lparr>Severity_json = severity l, Message_json = severity l @ '':''\<rparr>, Exits 1))
   \<and> (Sprintf other (''%s%s'' @ format) (Logger_prefix l v) = severity l @ '': '' @ t
        \<and> onlySpace t \<longrightarrow>
            PrefixPrintf rel other l format v out =
              (out @ Marshal rel \<lparr>Severity_json = severity l, Message_json = severity l @ '':''\<rparr>, Returns)
          \<and> PrefixFatalf rel other l format v out =
              (out @ Marshal rel \<lparr>Severity_json = severity l, Message_json = severity l @ '':''\<rparr>, Exits 1))
   \<and> (CHR ''['' \<notin> set format \<and> doPrintf format v 0 False \<noteq> None
        \<and> onlySpace (Sprintf other format v) \<longrightarrow>
            PrefixPrintf rel other l format v out =
              (out @ Marshal rel \<lparr>Severity_json = severity l, Message_json = severity l @ '':''\<rparr>, Returns)
          \<and> PrefixFatalf rel other l format v out =
              (out @ Marshal rel \<lparr>Severity_json = severity l, Message_json = severity l @ '':''\<rparr>, Exits 1))"
proof (intro conjI impI)
  assume "onlySpace (Sprint v)"
  then have "Logger_output rel l (Sprint (Logger_prefix l v)) out
      = out @ Marshal rel \<lparr>Severity_json = severity l, Message_json = severity l @ '':''\<rparr>"
    by (simp only: Sprint_prefix Logger_output_prefixed [OF assms])
  then show "PrefixPrint rel l v out =
      (out @ Marshal rel \<lparr>Severity_json = severity l, Message_json = severity l @ '':''\<rparr>, Returns)"
    and "PrefixFatal rel l v out =
      (out @ Marshal rel \<lparr>Severity_json = severity l, Message_json = severity l @ '':''\<rparr>, Exits 1)"
    by (simp_all only: PrefixPrint_def PrefixFatal_def)
next
  assume "Sprintf other (''%s%s'' @ format) (Logger_prefix l v) = severity l @ '': '' @ t
    \<and> onlySpace t"
  then have "Logger_output rel l (Sprintf other (''%s%s'' @ format) (Logger_prefix l v)) out
      = out @ Marshal rel \<lparr>Severity_json = severity l, Message_json = severity l @ '':''\<rparr>"
    using Logger_output_prefixed [OF assms, where t = t and out = out and rel = rel] by simp
  then show "PrefixPrintf rel other l format v out =
      (out @ Marshal rel \<lparr>Severity_json = severity l, Message_json = severity l @ '':''\<rparr>, Returns)"
    and "PrefixFatalf rel other l format v out =
      (out @ Marshal rel \<lparr>Severity_json = severity l, Message_json = severity l @ '':''\<rparr>, Exits 1)"
    by (simp_all only: PrefixPrintf_def PrefixFatalf_def)
next
  assume a: "CHR ''['' \<notin> set format \<and> doPrintf format v 0 False \<noteq> None
    \<and> onlySpace (Sprintf other format v)"
  then have "Sprintf other (''%s%s'' @ format) (Logger_prefix l v)
      = severity l @ '': '' @ Sprintf other format v"
    by (intro Sprintf_prefix) simp_all
  then have "Logger_output rel l (Sprintf other (''%s%s'' @ format) (Logger_prefix l v)) out
      = out @ Marshal rel \<lparr>Severity_json = severity l, Message_json = severity l @ '':''\<rparr>"
    using a Logger_output_prefixed [OF assms, where t = "Sprintf other format v" and out = out
        and rel = rel]
    by simp
  then show "PrefixPrintf rel other l format v out =
      (out @ Marshal rel \<lparr>Severity_json = severity l, Message_json = severity l @ '':''\<rparr>, Returns)"
    and "PrefixFatalf rel other l format v out =
      (out @ Marshal rel \<lparr>Severity_json = severity l, Message_json = severity l @ '':''\<rparr>, Exits 1)"
    by (simp_all only: PrefixPrintf_def PrefixFatalf_def)
qed

lemma DEFAULT_no_leading_space: "headRune spaceRunes ''DEFAULT'' = None"
  by code_simp

lemma onlySpace_sample: "onlySpace (Sprint [StringV [CHR 0x20, CHR 0x09, CHR 0x0A]])"
  by code_simp

lemma doPrintf_sample: "doPrintf ''%s'' [StringV [CHR 0x20, CHR 0xC2, CHR 0xA0]] 0 False
    = Some [CHR 0x20, CHR 0xC2, CHR 0xA0]"
  by code_simp

lemma onlySpace_sample2: "onlySpace [CHR 0x20, CHR 0xC2, CHR 0xA0]"
  by code_simp

lemma Marshal_colon:
  \<open>Marshal rel \<lparr>Severity_json = ''DEFAULT'', Message_json = ''DEFAULT:''\<rparr>
     = ''{"severity":"DEFAULT","message":"DEFAULT:"}''\<close>
  by code_simp

lemma Prefix_blank_text_instance:
  \<open>headRune spaceRunes (severity (New noCaseTables [])) = None
   \<and> onlySpace (Sprint [StringV [CHR 0x20, CHR 0x09, CHR 0x0A]])
   \<and> PrefixPrint goRelease (New noCaseTables []) [StringV [CHR 0x20, CHR 0x09, CHR 0x0A]] []
       = (''{"severity":"DEFAULT","message":"DEFAULT:"}'', Returns)
   \<and> onlySpace (Sprintf noOtherVerbs ''%s'' [StringV [CHR 0x20, CHR 0xC2, CHR 0xA0]])
   \<and> PrefixFatalf goRelease noOtherVerbs (New noCaseTables []) ''%s'' [StringV [CHR 0x20, CHR 0xC2, CHR 0xA0]] []
       = (''{"severity":"DEFAULT","message":"DEFAULT:"}'', Exits 1)\<close>
proof -
  have sev: "headRune spaceRunes (severity (New noCaseTables [])) = None"
    by (simp add: New_empty DEFAULT_no_leading_space)
  have f: "Sprintf noOtherVerbs ''%s'' [StringV [CHR 0x20, CHR 0xC2, CHR 0xA0]]
      = [CHR 0x20, CHR 0xC2, CHR 0xA0]"
    by (rule Sprintf_modelled) (rule doPrintf_sample)
  have sp: "onlySpace (Sprintf noOtherVerbs ''%s'' [StringV [CHR 0x20, CHR 0xC2, CHR 0xA0]])"
    by (simp only: f onlySpace_sample2)
  have pre: "CHR ''['' \<notin> set ''%s''
      \<and> doPrintf ''%s'' [StringV [CHR 0x20, CHR 0xC2, CHR 0xA0]] 0 False \<noteq> None
      \<and> onlySpace (Sprintf noOtherVerbs ''%s'' [StringV [CHR 0x20, CHR 0xC2, CHR 0xA0]])"
  proof (intro conjI)
    show "CHR ''['' \<notin> set ''%s''" by simp
    show "doPrintf ''%s'' [StringV [CHR 0x20, CHR 0xC2, CHR 0xA0]] 0 False \<noteq> None"
      unfolding doPrintf_sample by simp
    show "onlySpace (Sprintf noOtherVerbs ''%s'' [StringV [CHR 0x20, CHR 0xC2, CHR 0xA0]])"
      by (rule sp)
  qed
  have bytes: \<open>[] @ Marshal goRelease \<lparr>Severity_json = severity (New noCaseTables []),
        Message_json = severity (New noCaseTables []) @ '':''\<rparr>
      = ''{"severity":"DEFAULT","message":"DEFAULT:"}''\<close>
    using Marshal_colon by (simp add: New_empty)
  note thm1 = Prefix_blank_text [OF sev, where v = "[StringV [CHR 0x20, CHR 0x09, CHR 0x0A]]"
        and out = "[]" and rel = goRelease]
  note thm2 = Prefix_blank_text [OF sev, where format = "''%s''" and other = noOtherVerbs
        and v = "[StringV [CHR 0x20, CHR 0xC2, CHR 0xA0]]" and out = "[]" and rel = goRelease]
  have p: \<open>PrefixPrint goRelease (New noCaseTables []) [StringV [CHR 0x20, CHR 0x09, CHR 0x0A]] []
       = (''{"severity":"DEFAULT","message":"DEFAULT:"}'', Returns)\<close>
    using thm1 [THEN conjunct1, THEN mp, OF onlySpace_sample, THEN conjunct1]
    unfolding bytes .
  have q: \<open>PrefixFatalf goRelease noOtherVerbs (New noCaseTables []) ''%s'' [StringV [CHR 0x20, CHR 0xC2, CHR 0xA0]] []
       = (''{"severity":"DEFAULT","message":"DEFAULT:"}'', Exits 1)\<close>
    using thm2 [THEN conjunct2, THEN conjunct2, THEN mp, OF pre, THEN conjunct2]
    unfolding bytes .
  show ?thesis
    using sev onlySpace_sample p sp q by (intro conjI)
qed

text \<open>
  What holds of the prefix variants: \<open>PrefixPrint\<close> and \<open>PrefixFatal\<close> hand to \<open>output\<close>
  the severity as stored, a colon, a space and the \<open>Sprint\<close> of the operands, for every
  operand list; \<open>PrefixPrintf\<close> and \<open>PrefixFatalf\<close> do so with the \<open>Sprintf\<close> text for
  every modelled format without an explicit argument index.
\<close>

lemma Prefix_text:
  "PrefixPrint rel l v out = (Logger_output rel l (severity l @ '': '' @ Sprint v) out, Returns)"
  "PrefixFatal rel l v out = (Logger_output rel l (severity l @ '': '' @ Sprint v) out, Exits 1)"
  by (simp_all only: PrefixPrint_def PrefixFatal_def Sprint_prefix)

lemma Prefix_text_format:
  assumes "CHR ''['' \<notin> set format" and "doPrintf format v 0 False \<noteq> None"
  shows "PrefixPrintf rel other l format v out =
      (Logger_output rel l (severity l @ '': '' @ Sprintf other format v) out, Returns)"
    and "PrefixFatalf rel other l format v out =
      (Logger_output rel l (severity l @ '': '' @ Sprintf other format v) out, Exits 1)"
  by (simp_all only: PrefixPrintf_def PrefixFatalf_def Sprintf_prefix [OF assms])

lemma spaceRunes_heads:
  "list_all (\<lambda>p. p \<noteq> [] \<and> upperByte (hd p) \<notin> set ''DINWECA'') spaceRunes"
  by code_simp

lemma token_heads: "t \<in> set severityAll \<Longrightarrow> t \<noteq> [] \<and> hd t \<in> set ''DINWECA''"
  by (auto simp: set_severityAll)

text \<open>
  An ASCII string that \<open>isValidSeverity\<close> accepts starts with a letter, so no severity
  stored by \<open>New\<close> or \<open>SetSeverity\<close> from ASCII input starts with white space.
\<close>

lemma accepted_no_leading_space:
  assumes "isASCII s" and "ToUpper mapUpper s \<in> set severityAll"
  shows "headRune spaceRunes s = None"
proof -
  from assms have tok: "map upperByte s \<in> set severityAll"
    by (simp add: ToUpper_def)
  from token_heads [OF tok] have ne: "s \<noteq> []" and hd: "upperByte (hd s) \<in> set ''DINWECA''"
    by (auto simp: hd_map)
  have "\<not> prefix p s" if p: "p \<in> set spaceRunes" for p
  proof
    assume "prefix p s"
    moreover from p spaceRunes_heads have "p \<noteq> []" and np: "upperByte (hd p) \<notin> set ''DINWECA''"
      by (auto simp: list_all_iff)
    ultimately have "hd p = hd s"
      using ne by (cases p; cases s) auto
    with hd np show False by simp
  qed
  then show ?thesis
    unfolding headRune_None_iff by blast
qed

lemma doPrintf_example:
  "doPrintf ''%s %v'' [StringV ''Hello World'', IntV 12345] 0 False = Some ''Hello World 12345''"
  by (simp add: argNumber_def isVerb_def formatInt_def decimal_small decimal_large char_of_eq_iff)

lemma doPrintf_prefix_example:
  "doPrintf (''%s%s'' @ ''%s %v'')
     (Logger_prefix \<lparr>severity = ''DEFAULT''\<rparr> [StringV ''Hello World'', IntV 12345]) 0 False
   = Some ''DEFAULT: Hello World 12345''"
  by (simp add: Logger_prefix_def argNumber_def isVerb_def formatInt_def decimal_small
      decimal_large char_of_eq_iff)

lemma TrimSpace_example: "TrimSpace ''Hello World 12345'' = ''Hello World 12345''"
  by code_simp

lemma TrimSpace_prefix_example:
  "TrimSpace ''DEFAULT: Hello World 12345'' = ''DEFAULT: Hello World 12345''"
  by code_simp

text \<open>The examples of the package's tests.\<close>

lemma Example_Printf:
  \<open>Printf rel noOtherVerbs (New noCaseTables []) ''%s %v'' [StringV ''Hello World'', IntV 12345] []
     = (''{"severity":"DEFAULT","message":"Hello World 12345"}'', Returns)\<close>
  unfolding Printf_def Logger_output_bytes New_empty Sprintf_modelled [OF doPrintf_example]
    TrimSpace_example
  by (simp add: jsonString_safe htmlSafe_def byte_def)

lemma Example_PrefixPrint:
  \<open>PrefixPrint rel (New noCaseTables []) [StringV ''Hello World''] []
     = (''{"severity":"DEFAULT","message":"DEFAULT: Hello World"}'', Returns)\<close>
  by code_simp

lemma Example_PrefixPrintf:
  \<open>PrefixPrintf rel noOtherVerbs (New noCaseTables []) ''%s %v'' [StringV ''Hello World'', IntV 12345] []
     = (''{"severity":"DEFAULT","message":"DEFAULT: Hello World 12345"}'', Returns)\<close>
  unfolding PrefixPrintf_def Logger_output_bytes New_empty
    Sprintf_modelled [OF doPrintf_prefix_example] TrimSpace_prefix_example
  by (simp add: jsonString_safe htmlSafe_def byte_def)

lemma Example_SetSeverity:
  \<open>Print rel (SetSeverity noCaseTables (New noCaseTables []) CRITICAL) [StringV ''Hello World''] []
     = (''{"severity":"CRITICAL","message":"Hello World"}'', Returns)\<close>
  by code_simp

end
